theory Spec2Isabelle
  imports Main "HOL-Library.Word"
begin

section \<open>Python strings, bytes and exceptions\<close>

text \<open>
  A Python \<open>str\<close> is modelled as a \<open>string\<close> whose characters are the code points
  U+0000 to U+00FF; \<open>bytes\<close> are lists of 8-bit words. An exception that leaves
  \<open>download_font_files\<close> is a value of \<open>exn\<close>, returned on the left of a sum.
\<close>

type_synonym bytes = "8 word list"

datatype exn =
    RequestException string
  | HTTPError nat string
  | RuntimeError string
  | IndexError
  | ReError
  | UnboundLocalError

abbreviation NL :: char where "NL \<equiv> CHR 0x0A"
abbreviation SQ :: char where "SQ \<equiv> CHR 0x27"
abbreviation BACKSLASH :: char where "BACKSLASH \<equiv> CHR 0x5C"

text \<open>\<open>str.lower()\<close> on the code points below 256: A-Z and the accented capitals
  U+00C0 to U+00DE (the multiplication sign U+00D7 apart) move up by 32.\<close>

definition lower_char :: "char \<Rightarrow> char" where
  "lower_char c =
     (let n = (of_char c :: nat)
      in if (65 \<le> n \<and> n \<le> 90) \<or> (192 \<le> n \<and> n \<le> 222 \<and> n \<noteq> 215)
         then char_of (n + 32) else c)"

definition lower :: "string \<Rightarrow> string" where
  "lower s = map lower_char s"

text \<open>\<open>s.replace(old, new)\<close> for one-character \<open>old\<close> and \<open>new\<close>.\<close>

definition replace :: "char \<Rightarrow> char \<Rightarrow> string \<Rightarrow> string" where
  "replace old new s = map (\<lambda>c. if c = old then new else c) s"

text \<open>\<open>sep.join(xs)\<close>.\<close>

fun join :: "string \<Rightarrow> string list \<Rightarrow> string" where
  "join sep [] = []"
| "join sep [x] = x"
| "join sep (x # y # ys) = x @ sep @ join sep (y # ys)"

text \<open>\<open>s.endswith(suf)\<close>.\<close>

definition endswith :: "string \<Rightarrow> string \<Rightarrow> bool" where
  "endswith s suf = (length suf \<le> length s \<and> drop (length s - length suf) s = suf)"

text \<open>\<open>s.rsplit(sep, maxsplit=1)\<close> for a one-character separator: split at the last
  occurrence of \<open>sep\<close>, or the one-element list when there is none.\<close>

definition rsplit1 :: "char \<Rightarrow> string \<Rightarrow> string list" where
  "rsplit1 sep s =
     (if sep \<in> set s
      then [rev (tl (dropWhile (\<lambda>c. c \<noteq> sep) (rev s))), rev (takeWhile (\<lambda>c. c \<noteq> sep) (rev s))]
      else [s])"

text \<open>\<open>xs[i]\<close> for a non-negative index: out of range raises \<open>IndexError\<close>.\<close>

definition index :: "'a list \<Rightarrow> nat \<Rightarrow> exn + 'a" where
  "index xs i = (if i < length xs then Inr (xs ! i) else Inl IndexError)"

text \<open>\<open>s.encode('utf-8')\<close> on code points below 256.\<close>

definition encode_char :: "char \<Rightarrow> bytes" where
  "encode_char c =
     (let n = (of_char c :: nat)
      in if n < 128 then [of_nat n] else [of_nat (192 + n div 64), of_nat (128 + n mod 64)])"

definition encode_utf8 :: "string \<Rightarrow> bytes" where
  "encode_utf8 s = concat (map encode_char s)"

text \<open>A \<open>dict\<close> keeps its keys in insertion order; assigning to a key that is present
  replaces the value where the key stands.\<close>

fun dict_set :: "('k \<times> 'v) list \<Rightarrow> 'k \<Rightarrow> 'v \<Rightarrow> ('k \<times> 'v) list" where
  "dict_set [] k v = [(k, v)]"
| "dict_set ((k', v') # d) k v = (if k' = k then (k, v) # d else (k', v') # dict_set d k v)"

section \<open>Constants of the script\<close>

definition GOOGLE_FONTS_API :: string where
  "GOOGLE_FONTS_API = ''https://fonts.googleapis.com/css''"

definition WOFF_USER_AGENT :: string where
  "WOFF_USER_AGENT = ''Mozilla/5.0 (Windows NT 6.1; WOW64; rv:27.0) Gecko/20100101 Firefox/27.0''"

definition WOFF2_USER_AGENT :: string where
  "WOFF2_USER_AGENT = ''Mozilla/5.0 (Windows NT 6.3; rv:39.0) Gecko/20100101 Firefox/39.0''"

record font_format =
  format :: string
  agent :: string

definition FONT_FORMATS :: "font_format list" where
  "FONT_FORMATS =
     [\<lparr>format = ''woff'', agent = WOFF_USER_AGENT\<rparr>,
      \<lparr>format = ''woff2'', agent = WOFF2_USER_AGENT\<rparr>]"

section \<open>The pattern \<open>FONT_URL_RE\<close>\<close>

text \<open>
  \<open>FONT_URL_RE = re.compile(r'src: url\((.*?)\).*?\n')\<close>. A dot does not match
  a newline, so a match that starts at some position is the literal \<open>src: url(\<close>, the rest
  of that line, which must hold a closing parenthesis, and the newline that ends it.
  Group 1, being lazy, stops at the first closing parenthesis of the line.
  \<open>match_at\<close> is the match at the head of a text: group 0, group 1 and the
  text after the match.
\<close>

definition match_at :: "string \<Rightarrow> (string \<times> string \<times> string) option" where
  "match_at s =
     (if take 9 s = ''src: url(''
      then (let rest = drop 9 s;
                line = takeWhile (\<lambda>c. c \<noteq> NL) rest;
                after = dropWhile (\<lambda>c. c \<noteq> NL) rest
            in if after \<noteq> [] \<and> CHR '')'' \<in> set line
               then Some (''src: url('' @ line @ [NL], takeWhile (\<lambda>c. c \<noteq> CHR '')'') line, tl after)
               else None)
      else None)"

text \<open>The scan of \<open>finditer\<close> and \<open>sub\<close>: left to right, a match where one starts,
  else one character of text, resuming after each match.\<close>

datatype piece = Lit char | Hit string string

function scan :: "string \<Rightarrow> piece list" where
  "scan [] = []"
| "scan (c # cs) =
     (case match_at (c # cs) of
        Some (g0, g1, r) \<Rightarrow> Hit g0 g1 # scan r
      | None \<Rightarrow> Lit c # scan cs)"
  by pat_completeness auto
termination
proof (relation "measure length")
  show "wf (measure length)" by simp
next
  fix c cs x g0 y g1 r
  assume a: "match_at (c # cs) = Some x" "(g0, y) = x" "(g1, r) = y"
  let ?after = "dropWhile (\<lambda>c. c \<noteq> NL) (drop 9 (c # cs))"
  from a have ne: "?after \<noteq> []" and r: "r = tl ?after"
    by (auto simp: match_at_def Let_def split: if_splits)
  have "length ?after \<le> length (drop 9 (c # cs))" by (rule length_dropWhile_le)
  moreover have "length r < length ?after" using ne r by (cases ?after) auto
  ultimately show "(r, c # cs) \<in> measure length" by simp
next
  fix c :: char and cs :: string
  show "(cs, c # cs) \<in> measure length" by simp
qed

text \<open>\<open>list(FONT_URL_RE.finditer(text))\<close>: the matches, each as (group 0, group 1).\<close>

fun hits :: "piece list \<Rightarrow> (string \<times> string) list" where
  "hits [] = []"
| "hits (Lit c # ps) = hits ps"
| "hits (Hit g0 g1 # ps) = (g0, g1) # hits ps"

definition finditer :: "string \<Rightarrow> (string \<times> string) list" where
  "finditer s = hits (scan s)"

text \<open>
  \<open>FONT_URL_RE.sub(repl, text)\<close>. A replacement without a backslash stands for itself.
  One with a backslash goes through the escape processing of the \<open>re\<close> module, which
  is not part of the script: it is the parameter \<open>esc\<close>, giving either an error (a bad
  escape, or an unknown group name) or the expansion as a function of groups 0 and 1.
\<close>

datatype template_error = BadEscape | UnknownGroupName

fun exn_of_template_error :: "template_error \<Rightarrow> exn" where
  "exn_of_template_error BadEscape = ReError"
| "exn_of_template_error UnknownGroupName = IndexError"

type_synonym escapes = "string \<Rightarrow> template_error + (string \<Rightarrow> string \<Rightarrow> string)"

definition compile_repl :: "escapes \<Rightarrow> string \<Rightarrow> template_error + (string \<Rightarrow> string \<Rightarrow> string)" where
  "compile_repl esc repl = (if BACKSLASH \<notin> set repl then Inr (\<lambda>g0 g1. repl) else esc repl)"

fun expand :: "(string \<Rightarrow> string \<Rightarrow> string) \<Rightarrow> piece \<Rightarrow> string" where
  "expand f (Lit c) = [c]"
| "expand f (Hit g0 g1) = f g0 g1"

definition re_sub :: "escapes \<Rightarrow> string \<Rightarrow> string \<Rightarrow> exn + string" where
  "re_sub esc repl s =
     (case compile_repl esc repl of
        Inl e \<Rightarrow> Inl (exn_of_template_error e)
      | Inr f \<Rightarrow> Inr (concat (map (expand f) (scan s))))"

section \<open>\<open>get_base_filename\<close>\<close>

definition get_base_filename :: "string \<Rightarrow> string list \<Rightarrow> string" where
  "get_base_filename family subsets =
     replace (CHR '' '') (CHR ''_'') (lower family) @ ''-'' @ join ''_'' subsets"

section \<open>The HTTP client and the diagnostic stream\<close>

text \<open>
  \<open>requests.get\<close> talks to the network: the answer to a request is decided by the
  world, which the request may change. The world is the parameter \<open>H\<close>, a function from
  a world and a request to either the message of a transport exception or a response,
  and the next world. The state of a run is the world and the lines printed on
  \<open>sys.stderr\<close>.
\<close>

record request =
  req_url :: string
  user_agent :: string
  params :: "(string \<times> string) list"

text \<open>The field \<open>rtext\<close> is the \<open>text\<close> of a response.\<close>

record response =
  status_code :: nat
  url :: string
  rtext :: string
  content :: bytes

type_synonym 'w http = "'w \<Rightarrow> request \<Rightarrow> (string + response) \<times> 'w"

record 'w io =
  world :: 'w
  stderr :: "string list"

definition requests_get :: "'w http \<Rightarrow> request \<Rightarrow> 'w io \<Rightarrow> (exn + response) \<times> 'w io" where
  "requests_get H req st =
     (case H (world st) req of
        (Inl msg, w') \<Rightarrow> (Inl (RequestException msg), st\<lparr>world := w'\<rparr>)
      | (Inr r, w') \<Rightarrow> (Inr r, st\<lparr>world := w'\<rparr>))"

text \<open>\<open>r.raise_for_status()\<close> raises \<open>HTTPError\<close> on a 4xx or 5xx status.\<close>

definition bad_status :: "response \<Rightarrow> bool" where
  "bad_status r = (400 \<le> status_code r \<and> status_code r < 600)"

definition raise_for_status :: "response \<Rightarrow> exn + unit" where
  "raise_for_status r =
     (if bad_status r then Inl (HTTPError (status_code r) (url r)) else Inr ())"

definition print_stderr :: "string \<Rightarrow> 'w io \<Rightarrow> 'w io" where
  "print_stderr line st = st\<lparr>stderr := stderr st @ [line]\<rparr>"

section \<open>\<open>download_font_files\<close>\<close>

text \<open>The weights with their italic variants:
  \<open>[val for pair in zip(weights, italic_weights) for val in pair]\<close>.\<close>

definition expand_weights :: "string list \<Rightarrow> bool \<Rightarrow> string list" where
  "expand_weights weights italic =
     (if italic
      then (let italic_weights = map (\<lambda>w. w @ ''i'') weights
            in concat (map (\<lambda>pair. [fst pair, snd pair]) (zip weights italic_weights)))
      else weights)"

text \<open>The second argument of the filename format:
  \<open>weight + 'talic' if weight.endswith('i') else weight\<close>.\<close>

definition weight_label :: "string \<Rightarrow> string" where
  "weight_label weight = (if endswith weight ''i'' then weight @ ''talic'' else weight)"

text \<open>The third argument: \<open>font_url.rsplit('.', maxsplit=1)[1]\<close>.\<close>

definition extension :: "string \<Rightarrow> exn + string" where
  "extension font_url = index (rsplit1 (CHR ''.'') font_url) 1"

definition make_filename :: "string \<Rightarrow> string \<Rightarrow> string \<Rightarrow> exn + string" where
  "make_filename base_filename weight font_url =
     (case extension font_url of
        Inl e \<Rightarrow> Inl e
      | Inr ext \<Rightarrow> Inr (base_filename @ ''-'' @ weight_label weight @ ''.'' @ ext))"

text \<open>The local variables that the loops of \<open>download_font_files\<close> update:
  \<open>css_part\<close> (unbound until the first response), \<open>files\<close> and, within one weight,
  \<open>font_format_filenames\<close>.\<close>

type_synonym locals = "string option \<times> (string \<times> bytes) list \<times> (font_format \<times> string) list"

text \<open>The two requests of the loop body: the CSS of one weight for one format, and
  the font file that CSS names.\<close>

definition css_request :: "string \<Rightarrow> string \<Rightarrow> string list \<Rightarrow> font_format \<Rightarrow> request" where
  "css_request family weight subsets font_format =
     \<lparr>req_url = GOOGLE_FONTS_API, user_agent = agent font_format,
      params = [(''family'', family @ '':'' @ weight), (''subset'', join '','' subsets)]\<rparr>"

definition font_request :: "string \<Rightarrow> font_format \<Rightarrow> request" where
  "font_request font_url font_format =
     \<lparr>req_url = font_url, user_agent = agent font_format, params = []\<rparr>"

text \<open>The body of the loop over \<open>FONT_FORMATS\<close>.\<close>

definition format_body ::
  "'w http \<Rightarrow> string \<Rightarrow> string \<Rightarrow> string list \<Rightarrow> string \<Rightarrow> font_format \<Rightarrow> locals \<Rightarrow> 'w io
     \<Rightarrow> (exn + locals) \<times> 'w io" where
  "format_body H family weight subsets base_filename font_format L st =
     (case L of (css_part, files, font_format_filenames) \<Rightarrow>
      (case requests_get H (css_request family weight subsets font_format) st of
         (Inl e, st1) \<Rightarrow> (Inl e, st1)
       | (Inr r, st1) \<Rightarrow>
         (case raise_for_status r of
            Inl e \<Rightarrow> (Inl e, st1)
          | Inr _ \<Rightarrow>
            (let st2 = print_stderr (url r) st1;
                 url_matches = finditer (rtext r)
             in if length url_matches \<noteq> 1
                then (Inl (RuntimeError (''Failed to query google fonts for URL: '' @ url r)), st2)
                else
                  (let font_url = snd (url_matches ! 0)
                   in case requests_get H (font_request font_url font_format) st2 of
                        (Inl e, st3) \<Rightarrow> (Inl e, st3)
                      | (Inr r2, st3) \<Rightarrow>
                        (case raise_for_status r2 of
                           Inl e \<Rightarrow> (Inl e, st3)
                         | Inr _ \<Rightarrow>
                           (let st4 = print_stderr (url r2) st3
                            in case make_filename base_filename weight font_url of
                                 Inl e \<Rightarrow> (Inl e, st4)
                               | Inr filename \<Rightarrow>
                                   (Inr (Some (rtext r),
                                         dict_set files filename (content r2),
                                         font_format_filenames @ [(font_format, filename)]),
                                    st4))))))))"

fun format_loop ::
  "'w http \<Rightarrow> string \<Rightarrow> string \<Rightarrow> string list \<Rightarrow> string \<Rightarrow> font_format list \<Rightarrow> locals \<Rightarrow> 'w io
     \<Rightarrow> (exn + locals) \<times> 'w io" where
  "format_loop H family weight subsets base_filename [] L st = (Inr L, st)"
| "format_loop H family weight subsets base_filename (font_format # rest) L st =
     (case format_body H family weight subsets base_filename font_format L st of
        (Inl e, st') \<Rightarrow> (Inl e, st')
      | (Inr L', st') \<Rightarrow> format_loop H family weight subsets base_filename rest L' st')"

text \<open>The CSS snippet of one weight: the sources in reverse of
  \<open>font_format_filenames\<close>, and the new \<open>src\<close> declaration.\<close>

definition source_entry :: "font_format \<times> string \<Rightarrow> string" where
  "source_entry f = ''url('' @ [SQ] @ snd f @ [SQ] @ '') format('' @ [SQ] @ format (fst f) @ [SQ] @ '')''"

definition make_new_src :: "(font_format \<times> string) list \<Rightarrow> string" where
  "make_new_src font_format_filenames =
     (let sources = map source_entry (rev font_format_filenames)
      in ''src: '' @ join ('','' @ [NL] @ ''       '') sources @ '';'' @ [NL])"

text \<open>The body of the loop over the weights; \<open>css\<close> is the list of snippets.\<close>

type_synonym outer = "string option \<times> (string \<times> bytes) list \<times> string list"

definition weight_body ::
  "'w http \<Rightarrow> escapes \<Rightarrow> string \<Rightarrow> string list \<Rightarrow> string \<Rightarrow> string \<Rightarrow> outer \<Rightarrow> 'w io
     \<Rightarrow> (exn + outer) \<times> 'w io" where
  "weight_body H esc family subsets base_filename weight V st =
     (case V of (css_part, files, css) \<Rightarrow>
      (case format_loop H family weight subsets base_filename FONT_FORMATS
              (css_part, files, []) st of
         (Inl e, st') \<Rightarrow> (Inl e, st')
       | (Inr (css_part', files', font_format_filenames), st') \<Rightarrow>
         (let new_src = make_new_src font_format_filenames
          in case css_part' of
               None \<Rightarrow> (Inl UnboundLocalError, st')
             | Some part \<Rightarrow>
               (case re_sub esc new_src part of
                  Inl e \<Rightarrow> (Inl e, st')
                | Inr snippet \<Rightarrow> (Inr (css_part', files', css @ [snippet]), st')))))"

fun weight_loop ::
  "'w http \<Rightarrow> escapes \<Rightarrow> string \<Rightarrow> string list \<Rightarrow> string \<Rightarrow> string list \<Rightarrow> outer \<Rightarrow> 'w io
     \<Rightarrow> (exn + outer) \<times> 'w io" where
  "weight_loop H esc family subsets base_filename [] V st = (Inr V, st)"
| "weight_loop H esc family subsets base_filename (weight # rest) V st =
     (case weight_body H esc family subsets base_filename weight V st of
        (Inl e, st') \<Rightarrow> (Inl e, st')
      | (Inr V', st') \<Rightarrow> weight_loop H esc family subsets base_filename rest V' st')"

definition download_font_files ::
  "'w http \<Rightarrow> escapes \<Rightarrow> string \<Rightarrow> string list \<Rightarrow> string list \<Rightarrow> bool \<Rightarrow> 'w io
     \<Rightarrow> (exn + (string \<times> bytes) list) \<times> 'w io" where
  "download_font_files H esc family weights subsets italic st =
     (let weights' = expand_weights weights italic;
          base_filename = get_base_filename family subsets
      in case weight_loop H esc family subsets base_filename weights' (None, [], []) st of
           (Inl e, st') \<Rightarrow> (Inl e, st')
         | (Inr (css_part, files, css), st') \<Rightarrow>
             (Inr (dict_set files (base_filename @ ''.css'') (encode_utf8 (join [NL] css))), st'))"

section \<open>The specification's words\<close>

text \<open>The interleaving of the specification: each weight, then the weight with the
  italic marker, in the order given.\<close>

fun interleave :: "string list \<Rightarrow> string list" where
  "interleave [] = []"
| "interleave (w # ws) = w # (w @ ''i'') # interleave ws"

text \<open>The label as the specification words it: the italic marker replaced by
  \<open>talic\<close>.\<close>

definition spec_label :: "string \<Rightarrow> string" where
  "spec_label weight = (if endswith weight ''i'' then butlast weight @ ''talic'' else weight)"

text \<open>The specification's words for the message of the pattern error are that it
  contains a given text: \<open>sub in s\<close>.\<close>

fun contains :: "string \<Rightarrow> string \<Rightarrow> bool" where
  "contains [] sub = (sub = [])"
| "contains (c # cs) sub = (take (length sub) (c # cs) = sub \<or> contains cs sub)"

text \<open>The parts of a URL (RFC 3986): the text before the query and the fragment; the
  scheme, when the text before the first colon has the shape of one; the path, after
  the scheme and after the authority that follows a double slash; the last segment of
  the path, after its last slash.\<close>

definition url_hier :: "string \<Rightarrow> string" where
  "url_hier u = takeWhile (\<lambda>c. c \<noteq> CHR ''?'' \<and> c \<noteq> CHR ''#'') u"

definition is_alpha :: "char \<Rightarrow> bool" where
  "is_alpha c = (let n = (of_char c :: nat) in (65 \<le> n \<and> n \<le> 90) \<or> (97 \<le> n \<and> n \<le> 122))"

definition is_scheme_char :: "char \<Rightarrow> bool" where
  "is_scheme_char c =
     (let n = (of_char c :: nat)
      in is_alpha c \<or> (48 \<le> n \<and> n \<le> 57) \<or> c = CHR ''+'' \<or> c = CHR ''-'' \<or> c = CHR ''.'')"

definition has_scheme :: "string \<Rightarrow> bool" where
  "has_scheme h =
     (let s = takeWhile (\<lambda>c. c \<noteq> CHR '':'') h
      in CHR '':'' \<in> set h \<and> s \<noteq> [] \<and> is_alpha (hd s) \<and> list_all is_scheme_char s)"

definition url_path :: "string \<Rightarrow> string" where
  "url_path u =
     (let h = url_hier u;
          r = (if has_scheme h then tl (dropWhile (\<lambda>c. c \<noteq> CHR '':'') h) else h)
      in if take 2 r = ''//'' then dropWhile (\<lambda>c. c \<noteq> CHR ''/'') (drop 2 r) else r)"

definition last_path_segment :: "string \<Rightarrow> string" where
  "last_path_segment u = rev (takeWhile (\<lambda>c. c \<noteq> CHR ''/'') (rev (url_path u)))"

text \<open>The extension as the specification words it: the suffix after the final dot of
  the URL's last path segment.\<close>

definition suffix_after_final_dot :: "string \<Rightarrow> string option" where
  "suffix_after_final_dot s =
     (if CHR ''.'' \<in> set s then Some (rev (takeWhile (\<lambda>c. c \<noteq> CHR ''.'') (rev s))) else None)"

definition spec_extension :: "string \<Rightarrow> string option" where
  "spec_extension u = suffix_after_final_dot (last_path_segment u)"


section \<open>Notions for the statements\<close>

text \<open>The text a piece of the scan stands for.\<close>

fun piece_text :: "piece \<Rightarrow> string" where
  "piece_text (Lit c) = [c]"
| "piece_text (Hit g0 g1) = g0"

text \<open>The local filename of a weight and an extension, as \<open>make_filename\<close> formats it,
  and a sequence of stores into a \<open>dict\<close>.\<close>

definition font_name :: "string \<Rightarrow> string \<Rightarrow> string \<Rightarrow> string" where
  "font_name base weight ext = base @ ''-'' @ weight_label weight @ ''.'' @ ext"

definition dict_set_all :: "('k \<times> 'v) list \<Rightarrow> ('k \<times> 'v) list \<Rightarrow> ('k \<times> 'v) list" where
  "dict_set_all d kvs = foldl (\<lambda>d kv. dict_set d (fst kv) (snd kv)) d kvs"

text \<open>
  The exchanges of a run are what it asked and what it was answered, in order. They are
  read off a world that records them: \<open>recording H\<close> answers as \<open>H\<close> does and
  appends each request with its answer to a log. A run in the recording world returns what
  the run in \<open>H\<close> returns (lemma \<open>download_traced\<close> below).
\<close>

type_synonym exchange = "request \<times> (string + response)"

definition recording :: "'w http \<Rightarrow> ('w \<times> exchange list) http" where
  "recording H wl req = (case H (fst wl) req of (ans, w') \<Rightarrow> (ans, (w', snd wl @ [(req, ans)])))"

definition unrecorded :: "('w \<times> exchange list) io \<Rightarrow> 'w io" where
  "unrecorded st = \<lparr>world = fst (world st), stderr = stderr st\<rparr>"

definition exchanges ::
  "'w http \<Rightarrow> escapes \<Rightarrow> string \<Rightarrow> string list \<Rightarrow> string list \<Rightarrow> bool \<Rightarrow> 'w io \<Rightarrow> exchange list" where
  "exchanges H esc family weights subsets italic st =
     snd (world (snd (download_font_files (recording H) esc family weights subsets italic
                        \<lparr>world = (world st, []), stderr = stderr st\<rparr>)))"

text \<open>The CSS request carries query parameters, the font request none.\<close>

definition is_css_request :: "request \<Rightarrow> bool" where
  "is_css_request req = (params req \<noteq> [])"

text \<open>The exception an exchange makes the loop body raise, if any: the transport's own,
  \<open>HTTPError\<close> from \<open>raise_for_status\<close>, or \<open>RuntimeError\<close> when the CSS does not
  have exactly one match.\<close>

fun failure_of :: "exchange \<Rightarrow> exn option" where
  "failure_of (req, Inl msg) = Some (RequestException msg)"
| "failure_of (req, Inr r) =
     (if bad_status r then Some (HTTPError (status_code r) (url r))
      else if is_css_request req \<and> length (finditer (rtext r)) \<noteq> 1
      then Some (RuntimeError (''Failed to query google fonts for URL: '' @ url r))
      else None)"

text \<open>The exceptions raised without a failing exchange: by the index into the split
  URL, by the replacement template, by a \<open>css_part\<close> never bound.\<close>

definition local_error :: "exn \<Rightarrow> bool" where
  "local_error e = (e = IndexError \<or> e = ReError \<or> e = UnboundLocalError)"

text \<open>The exchanges of a part of a run, against its result: all fine when it returns a
  value; when it raises, either all fine with a local error, or all fine but the last,
  which is the failure raised.\<close>

definition all_fine :: "exchange list \<Rightarrow> bool" where
  "all_fine xs = list_all (\<lambda>x. failure_of x = None) xs"

definition seg_inv :: "exn + 'a \<Rightarrow> exchange list \<Rightarrow> bool" where
  "seg_inv res new =
     (case res of
        Inr a \<Rightarrow> all_fine new
      | Inl e \<Rightarrow>
          (all_fine new \<and> local_error e)
          \<or> (new \<noteq> [] \<and> all_fine (butlast new) \<and> failure_of (last new) = Some e))"

text \<open>A part of a run in the recording world from \<open>st\<close>, against the same part in the
  plain world: same result, same state apart from the log, and the log grown by
  exchanges that fit the result.\<close>

definition traced ::
  "(exn + 'a) \<times> ('w \<times> exchange list) io \<Rightarrow> ('w \<times> exchange list) io \<Rightarrow> (exn + 'a) \<times> 'w io \<Rightarrow> bool" where
  "traced out st plain =
     (plain = (fst out, unrecorded (snd out))
      \<and> (\<exists>new. snd (world (snd out)) = snd (world st) @ new \<and> seg_inv (fst out) new))"

text \<open>
  What one pass of the loop body fetches: the CSS response, the font URL found in it and
  the response to the request for that URL. A fetch is good when neither response has a
  failure status, the CSS has exactly one match, whose group 1 is the URL, and the URL
  has a dot. Its exchanges are the two requests, sent with the agent of the format, and
  their answers; its name is the local filename, with the text after the last dot of the
  URL as extension; its entry is what the loop body stores.
\<close>

record fetch =
  fetch_css :: response
  fetch_url :: string
  fetch_font :: response

definition fetch_exchanges :: "string \<Rightarrow> string \<Rightarrow> string list \<Rightarrow> font_format \<Rightarrow> fetch \<Rightarrow> exchange list" where
  "fetch_exchanges family weight subsets f x =
     [(css_request family weight subsets f, Inr (fetch_css x)),
      (font_request (fetch_url x) f, Inr (fetch_font x))]"

definition good_fetch :: "fetch \<Rightarrow> bool" where
  "good_fetch x =
     (\<not> bad_status (fetch_css x) \<and> map snd (finditer (rtext (fetch_css x))) = [fetch_url x]
      \<and> \<not> bad_status (fetch_font x) \<and> CHR ''.'' \<in> set (fetch_url x))"

definition last_dot_suffix :: "string \<Rightarrow> string" where
  "last_dot_suffix u = rev (takeWhile (\<lambda>c. c \<noteq> CHR ''.'') (rev u))"

definition fetch_name :: "string \<Rightarrow> string \<Rightarrow> fetch \<Rightarrow> string" where
  "fetch_name base weight x = font_name base weight (last_dot_suffix (fetch_url x))"

definition fetch_entry :: "string \<Rightarrow> string \<Rightarrow> fetch \<Rightarrow> string \<times> bytes" where
  "fetch_entry base weight x = (fetch_name base weight x, content (fetch_font x))"

text \<open>One weight makes two fetches, the first for the first format of \<open>FONT_FORMATS\<close>,
  the second for the second. The exchanges and the stores of a run are those of its
  weights, in order.\<close>

definition weight_exchanges :: "string \<Rightarrow> string list \<Rightarrow> string \<Rightarrow> fetch \<times> fetch \<Rightarrow> exchange list" where
  "weight_exchanges family subsets weight xy =
     fetch_exchanges family weight subsets (FONT_FORMATS ! 0) (fst xy)
     @ fetch_exchanges family weight subsets (FONT_FORMATS ! 1) (snd xy)"

definition weight_entries :: "string \<Rightarrow> string \<Rightarrow> fetch \<times> fetch \<Rightarrow> (string \<times> bytes) list" where
  "weight_entries base weight xy = [fetch_entry base weight (fst xy), fetch_entry base weight (snd xy)]"

definition run_exchanges :: "string \<Rightarrow> string list \<Rightarrow> string list \<Rightarrow> (fetch \<times> fetch) list \<Rightarrow> exchange list" where
  "run_exchanges family subsets ws xs = concat (map2 (weight_exchanges family subsets) ws xs)"

definition inserted_fonts :: "string \<Rightarrow> string list \<Rightarrow> (fetch \<times> fetch) list \<Rightarrow> (string \<times> bytes) list" where
  "inserted_fonts base ws xs = concat (map2 (weight_entries base) ws xs)"

text \<open>The \<open>src\<close> declaration as the specification words it: the woff2 entry, then the
  woff entry, each \<open>url('<filename>') format('<format>')\<close>, joined by a comma, a newline
  and seven spaces.\<close>

definition spec_declaration :: "string \<Rightarrow> string \<Rightarrow> string" where
  "spec_declaration woff_file woff2_file =
     ''src: url('' @ [SQ] @ woff2_file @ [SQ] @ '') format('' @ [SQ] @ ''woff2'' @ [SQ] @ ''),''
     @ [NL] @ ''       url('' @ [SQ] @ woff_file @ [SQ] @ '') format('' @ [SQ] @ ''woff'' @ [SQ] @ '');''
     @ [NL]"





definition snippet_of :: "escapes \<Rightarrow> string \<Rightarrow> string \<Rightarrow> fetch \<times> fetch \<Rightarrow> string \<Rightarrow> bool" where
  "snippet_of esc base weight xy sn =
     (re_sub esc (spec_declaration (fetch_name base weight (fst xy)) (fetch_name base weight (snd xy)))
        (rtext (fetch_css (snd xy))) = Inr sn)"

section \<open>Sample data\<close>

text \<open>A CSS response with one \<open>src\<close> declaration, and a world that answers a CSS
  request with the text chosen by the user agent and a font request with the given
  status, counting the requests.\<close>

definition sample_css :: "string \<Rightarrow> string \<Rightarrow> string" where
  "sample_css font_url fmt =
     ''@font-face {'' @ [NL] @ ''  font-weight: 700;'' @ [NL]
     @ ''  src: url('' @ font_url @ '') format('' @ [SQ] @ fmt @ [SQ] @ '');'' @ [NL]
     @ ''}'' @ [NL]"

definition sample_http :: "string \<Rightarrow> string \<Rightarrow> nat \<Rightarrow> nat http" where
  "sample_http css_woff css_woff2 font_status w req =
     (if params req \<noteq> []
      then (Inr \<lparr>status_code = 200, url = req_url req,
                 rtext = (if user_agent req = WOFF_USER_AGENT then css_woff else css_woff2),
                 content = []\<rparr>, w + 1)
      else (Inr \<lparr>status_code = font_status, url = req_url req, rtext = [],
                 content = [0x77, 0x4F, 0x46]\<rparr>, w + 1))"

definition sample_world :: "nat http" where
  "sample_world =
     sample_http (sample_css ''https://fonts.example/f700.woff'' ''woff'')
                 (sample_css ''https://fonts.example/f700.woff2'' ''woff2'') 200"

definition sample_snippet :: string where
  "sample_snippet =
     ''@font-face {'' @ [NL] @ ''  font-weight: 700;'' @ [NL]
     @ ''  src: url('' @ [SQ] @ ''lato-latin-700.woff2'' @ [SQ] @ '') format('' @ [SQ] @ ''woff2'' @ [SQ] @ ''),'' @ [NL]
     @ ''       url('' @ [SQ] @ ''lato-latin-700.woff'' @ [SQ] @ '') format('' @ [SQ] @ ''woff'' @ [SQ] @ '');'' @ [NL]
     @ ''}'' @ [NL]"

definition sample_bundle :: "(string \<times> bytes) list" where
  "sample_bundle =
     [(''lato-latin-700.woff'', [0x77, 0x4F, 0x46]),
      (''lato-latin-700.woff2'', [0x77, 0x4F, 0x46]),
      (''lato-latin.css'', encode_utf8 sample_snippet)]"

definition sample_stderr :: "string list" where
  "sample_stderr =
     [''https://fonts.googleapis.com/css'', ''https://fonts.example/f700.woff'',
      ''https://fonts.googleapis.com/css'', ''https://fonts.example/f700.woff2'']"

text \<open>A world whose font endpoint answers 404, and one whose CSS for the second format
  has two \<open>src\<close> declarations.\<close>

definition missing_font_world :: "nat http" where
  "missing_font_world =
     sample_http (sample_css ''https://fonts.example/f700.woff'' ''woff'')
                 (sample_css ''https://fonts.example/f700.woff2'' ''woff2'') 404"

definition two_faces_world :: "nat http" where
  "two_faces_world =
     sample_http (sample_css ''https://fonts.example/f700.woff'' ''woff'')
                 (sample_css ''https://fonts.example/a.woff2'' ''woff2''
                  @ sample_css ''https://fonts.example/b.woff2'' ''woff2'') 200"

text \<open>A world that answers every request with status 404 and an empty body.\<close>

definition refused_css_world :: "nat http" where
  "refused_css_world w req =
     (Inr \<lparr>status_code = 404, url = req_url req, rtext = [], content = []\<rparr>, w + 1)"





text \<open>The mapping of a run that asks for the weight 700 twice, and the CSS of a run
  for a family named \<open>a\nb\<close> (with a backslash and an n).\<close>

definition twice_bundle :: "(string \<times> bytes) list" where
  "twice_bundle =
     [(''lato-latin-700.woff'', [0x77, 0x4F, 0x46]),
      (''lato-latin-700.woff2'', [0x77, 0x4F, 0x46]),
      (''lato-latin.css'', encode_utf8 (sample_snippet @ [NL] @ sample_snippet))]"


section \<open>Properties\<close>

subsection \<open>Weights and names\<close>

lemma expand_weights_italic: "expand_weights W True = interleave W"
  by (induction W) (simp_all add: expand_weights_def)

lemma length_interleave: "length (interleave W) = 2 * length W"
  by (induction W) simp_all

text \<open>
  C3. Without the italic flag the weights are used as given. With it, the list is twice
  as long and is the interleaving of each weight with its italic form, in the caller's
  order.
\<close>

theorem expand_weights_interleaving:
  "expand_weights W False = W
   \<and> length (expand_weights W True) = 2 * length W
   \<and> expand_weights W True = interleave W"
  by (simp add: expand_weights_italic length_interleave) (simp add: expand_weights_def)

lemma endswith_i: "endswith (w @ ''i'') ''i''"
  by (simp add: endswith_def)

text \<open>
  C4, as stated, fails: for the weight \<open>400i\<close> the specification's label is
  \<open>400talic\<close>, and the script's is \<open>400italic\<close>.
\<close>

theorem weight_label_counterexample:
  "spec_label ''400i'' = ''400talic'' \<and> weight_label ''400i'' = ''400italic''
   \<and> weight_label ''400i'' \<noteq> spec_label ''400i''"
  by (simp add: spec_label_def weight_label_def endswith_def)

text \<open>
  C4, amended. The label is the weight itself when the weight does not end in the italic
  marker \<open>i\<close>; when it does, the marker stays and \<open>talic\<close> is appended, which spells
  \<open>italic\<close>: \<open>400\<close> gives \<open>400\<close>, and \<open>400i\<close> gives \<open>400italic\<close>.
\<close>

theorem weight_label_italic:
  "weight_label weight = (if endswith weight ''i'' then weight @ ''talic'' else weight)
   \<and> weight_label (w @ ''i'') = w @ ''italic''
   \<and> weight_label ''400'' = ''400''
   \<and> weight_label ''400i'' = ''400italic''"
  by (simp add: weight_label_def endswith_i) (simp add: endswith_def)

lemma join_hd_tl: "xs \<noteq> [] \<Longrightarrow> join sep xs = hd xs @ concat (map (\<lambda>s. sep @ s) (tl xs))"
  by (induction sep xs rule: join.induct) simp_all

text \<open>
  C8. For a non-empty list of subsets the base filename is the family in lower case with
  every space replaced by an underscore, a hyphen, and the subsets joined by underscores;
  for \<open>Open Sans\<close> with \<open>latin\<close> and \<open>latin-ext\<close> it is \<open>open_sans-latin_latin-ext\<close>.
\<close>

theorem get_base_filename_spec:
  "(subsets \<noteq> [] \<longrightarrow>
      get_base_filename family subsets =
        map (\<lambda>c. if c = CHR '' '' then CHR ''_'' else c) (map lower_char family)
        @ ''-'' @ hd subsets @ concat (map (\<lambda>s. ''_'' @ s) (tl subsets)))
   \<and> get_base_filename ''Open Sans'' [''latin'', ''latin-ext''] = ''open_sans-latin_latin-ext''"
proof
  show "subsets \<noteq> [] \<longrightarrow>
      get_base_filename family subsets =
        map (\<lambda>c. if c = CHR '' '' then CHR ''_'' else c) (map lower_char family)
        @ ''-'' @ hd subsets @ concat (map (\<lambda>s. ''_'' @ s) (tl subsets))"
    by (simp add: get_base_filename_def replace_def lower_def join_hd_tl)
  show "get_base_filename ''Open Sans'' [''latin'', ''latin-ext''] = ''open_sans-latin_latin-ext''"
    by code_simp
qed

theorem get_base_filename_spec_witness:
  "[''cyrillic'', ''greek''] \<noteq> []
   \<and> get_base_filename ''PT Serif'' [''cyrillic'', ''greek''] = ''pt_serif-cyrillic_greek''"
proof -
  have ne: "[''cyrillic'', ''greek''] \<noteq> ([] :: string list)" by simp
  have "get_base_filename ''PT Serif'' [''cyrillic'', ''greek''] =
        map (\<lambda>c. if c = CHR '' '' then CHR ''_'' else c) (map lower_char ''PT Serif'')
        @ ''-'' @ hd [''cyrillic'', ''greek'']
        @ concat (map (\<lambda>s. ''_'' @ s) (tl [''cyrillic'', ''greek'']))"
    using get_base_filename_spec [of "[''cyrillic'', ''greek'']" "''PT Serif''"] ne by blast
  also have "\<dots> = ''pt_serif-cyrillic_greek''" by code_simp
  finally show ?thesis using ne by simp
qed

subsection \<open>The extension\<close>

lemma extension_eq:
  "extension u =
     (if CHR ''.'' \<in> set u then Inr (rev (takeWhile (\<lambda>c. c \<noteq> CHR ''.'') (rev u)))
      else Inl IndexError)"
  by (simp add: extension_def index_def rsplit1_def)

lemma extension_append:
  "CHR ''.'' \<notin> set ext \<Longrightarrow> extension (pre @ CHR ''.'' # ext) = Inr ext"
  by (simp add: extension_eq takeWhile_append)

subsection \<open>The substitution\<close>

lemma match_at_split: "match_at s = Some (g0, g1, r) \<Longrightarrow> s = g0 @ r"
proof -
  assume a: "match_at s = Some (g0, g1, r)"
  let ?rest = "drop 9 s"
  let ?line = "takeWhile (\<lambda>c. c \<noteq> NL) ?rest"
  let ?after = "dropWhile (\<lambda>c. c \<noteq> NL) ?rest"
  from a have p: "take 9 s = ''src: url(''" and ne: "?after \<noteq> []"
    and g0: "g0 = ''src: url('' @ ?line @ [NL]" and r: "r = tl ?after"
    by (auto simp: match_at_def Let_def split: if_splits)
  from ne have "hd ?after = NL" using hd_dropWhile [of "\<lambda>c. c \<noteq> NL" ?rest] by simp
  with ne have "?after = NL # tl ?after" by (cases ?after) auto
  then have "?rest = ?line @ [NL] @ tl ?after"
    by (metis append_Cons append_Nil takeWhile_dropWhile_id)
  moreover have "s = take 9 s @ ?rest" by simp
  ultimately show ?thesis using p g0 r by (metis append_assoc)
qed

lemma concat_scan: "concat (map piece_text (scan s)) = s"
proof (induction s rule: scan.induct)
  case 1
  show ?case by simp
next
  case (2 c cs)
  show ?case
  proof (cases "match_at (c # cs)")
    case None
    with 2 show ?thesis by simp
  next
    case (Some t)
    obtain g0 g1 r where t: "t = (g0, g1, r)" by (cases t) auto
    with Some 2 have "concat (map piece_text (scan r)) = r" by simp
    moreover have "c # cs = g0 @ r" using Some t match_at_split by blast
    moreover have "scan (c # cs) = Hit g0 g1 # scan r" using Some t by simp
    ultimately show ?thesis by (simp del: scan.simps)
  qed
qed

lemma hits_none: "hits ps = [] \<Longrightarrow> \<exists>cs. ps = map Lit cs"
proof (induction ps rule: hits.induct)
  case 1
  then show ?case by simp
next
  case (2 c ps)
  then obtain cs where "ps = map Lit cs" by auto
  then have "Lit c # ps = map Lit (c # cs)" by simp
  then show ?case by (rule exI)
next
  case (3 g0 g1 ps)
  then show ?case by simp
qed

lemma hits_one:
  "hits ps = [(g0, g1)] \<Longrightarrow> \<exists>pre post. ps = map Lit pre @ Hit g0 g1 # map Lit post"
proof (induction ps rule: hits.induct)
  case 1
  then show ?case by simp
next
  case (2 c ps)
  then obtain pre post where "ps = map Lit pre @ Hit g0 g1 # map Lit post" by auto
  then have "Lit c # ps = map Lit (c # pre) @ Hit g0 g1 # map Lit post" by simp
  then show ?case by blast
next
  case (3 h0 h1 ps)
  then have "hits ps = []" and "h0 = g0" and "h1 = g1" by auto
  then obtain post where "ps = map Lit post" using hits_none by blast
  then have "Hit h0 h1 # ps = map Lit [] @ Hit g0 g1 # map Lit post"
    using \<open>h0 = g0\<close> \<open>h1 = g1\<close> by simp
  then show ?case by blast
qed

lemma concat_Lit:
  "concat (map (piece_text \<circ> Lit) cs) = cs" "concat (map (expand f \<circ> Lit) cs) = cs"
  by (induction cs) simp_all

text \<open>
  C9. In a text with exactly one match of the pattern, the substitution changes the
  matched span only: the text before it and the text after it are in the result as they
  were, around the new declaration.
\<close>

theorem sub_frame:
  assumes "finditer s = [(g0, g1)]"
  shows "\<exists>pre post. scan s = map Lit pre @ Hit g0 g1 # map Lit post
           \<and> s = pre @ g0 @ post
           \<and> (\<forall>out. re_sub esc repl s = Inr out \<longrightarrow> (\<exists>new. out = pre @ new @ post))
           \<and> (BACKSLASH \<notin> set repl \<longrightarrow> re_sub esc repl s = Inr (pre @ repl @ post))"
proof -
  from assms obtain pre post where sc: "scan s = map Lit pre @ Hit g0 g1 # map Lit post"
    unfolding finditer_def using hits_one by blast
  have "s = concat (map piece_text (scan s))" by (simp add: concat_scan)
  then have s: "s = pre @ g0 @ post" by (simp add: sc concat_Lit)
  have ex: "\<And>f. concat (map (expand f) (scan s)) = pre @ f g0 g1 @ post"
    by (simp add: sc concat_Lit)
  have a: "\<forall>out. re_sub esc repl s = Inr out \<longrightarrow> (\<exists>new. out = pre @ new @ post)"
    by (auto simp: re_sub_def ex split: sum.splits)
  have b: "BACKSLASH \<notin> set repl \<longrightarrow> re_sub esc repl s = Inr (pre @ repl @ post)"
    by (simp add: re_sub_def compile_repl_def ex)
  from sc s a b show ?thesis by blast
qed

theorem sub_frame_witness:
  "finditer (sample_css ''https://fonts.example/f700.woff'' ''woff'')
     = [(''src: url(https://fonts.example/f700.woff) format('' @ [SQ] @ ''woff'' @ [SQ] @ '');'' @ [NL],
         ''https://fonts.example/f700.woff'')]
   \<and> (\<exists>pre post.
         sample_css ''https://fonts.example/f700.woff'' ''woff''
           = pre @ (''src: url(https://fonts.example/f700.woff) format('' @ [SQ] @ ''woff'' @ [SQ] @ '');'' @ [NL]) @ post
         \<and> re_sub (\<lambda>t. Inl BadEscape) (''src: url(x);'' @ [NL])
              (sample_css ''https://fonts.example/f700.woff'' ''woff'')
             = Inr (pre @ (''src: url(x);'' @ [NL]) @ post))"
proof -
  have h: "finditer (sample_css ''https://fonts.example/f700.woff'' ''woff'')
     = [(''src: url(https://fonts.example/f700.woff) format('' @ [SQ] @ ''woff'' @ [SQ] @ '');'' @ [NL],
         ''https://fonts.example/f700.woff'')]"
    by (simp add: sample_css_def finditer_def match_at_def)
  have b: "BACKSLASH \<notin> set (''src: url(x);'' @ [NL])" by simp
  from sub_frame [OF h, of "\<lambda>t. Inl BadEscape" "''src: url(x);'' @ [NL]"] b
  have "\<exists>pre post.
         sample_css ''https://fonts.example/f700.woff'' ''woff''
           = pre @ (''src: url(https://fonts.example/f700.woff) format('' @ [SQ] @ ''woff'' @ [SQ] @ '');'' @ [NL]) @ post
         \<and> re_sub (\<lambda>t. Inl BadEscape) (''src: url(x);'' @ [NL])
              (sample_css ''https://fonts.example/f700.woff'' ''woff'')
             = Inr (pre @ (''src: url(x);'' @ [NL]) @ post)"
    by blast
  with h show ?thesis by blast
qed

subsection \<open>The body of the loop over the formats\<close>

lemma format_body_css_raises:
  assumes "H (world st) (css_request family weight subsets f) = (Inl msg, w1)"
  shows "format_body H family weight subsets base f L st
           = (Inl (RequestException msg), st\<lparr>world := w1\<rparr>)"
  using assms by (cases L) (simp add: format_body_def requests_get_def)

lemma format_body_css_status:
  assumes "H (world st) (css_request family weight subsets f) = (Inr r, w1)"
    and "bad_status r"
  shows "format_body H family weight subsets base f L st
           = (Inl (HTTPError (status_code r) (url r)), st\<lparr>world := w1\<rparr>)"
  using assms
  by (cases L) (simp add: format_body_def requests_get_def raise_for_status_def)

lemma format_body_no_match:
  assumes "H (world st) (css_request family weight subsets f) = (Inr r, w1)"
    and "\<not> bad_status r" and "length (finditer (rtext r)) \<noteq> 1"
  shows "format_body H family weight subsets base f L st
           = (Inl (RuntimeError (''Failed to query google fonts for URL: '' @ url r)),
              print_stderr (url r) (st\<lparr>world := w1\<rparr>))"
  using assms
  by (cases L) (simp add: format_body_def requests_get_def raise_for_status_def Let_def)

lemma format_body_font_raises:
  assumes "H (world st) (css_request family weight subsets f) = (Inr r, w1)"
    and "\<not> bad_status r" and "finditer (rtext r) = [(g0, font_url)]"
    and "H w1 (font_request font_url f) = (Inl msg, w2)"
  shows "format_body H family weight subsets base f L st
           = (Inl (RequestException msg), (print_stderr (url r) (st\<lparr>world := w1\<rparr>))\<lparr>world := w2\<rparr>)"
  using assms
  by (cases L) (simp add: format_body_def requests_get_def
      raise_for_status_def Let_def print_stderr_def)

lemma format_body_font_status:
  assumes "H (world st) (css_request family weight subsets f) = (Inr r, w1)"
    and "\<not> bad_status r" and "finditer (rtext r) = [(g0, font_url)]"
    and "H w1 (font_request font_url f) = (Inr r2, w2)" and "bad_status r2"
  shows "format_body H family weight subsets base f L st
           = (Inl (HTTPError (status_code r2) (url r2)),
              (print_stderr (url r) (st\<lparr>world := w1\<rparr>))\<lparr>world := w2\<rparr>)"
  using assms
  by (cases L) (simp add: format_body_def requests_get_def
      raise_for_status_def Let_def print_stderr_def)

lemma format_body_fetched:
  assumes "H (world st) (css_request family weight subsets f) = (Inr r, w1)"
    and "\<not> bad_status r" and "finditer (rtext r) = [(g0, font_url)]"
    and "H w1 (font_request font_url f) = (Inr r2, w2)" and "\<not> bad_status r2"
  shows "format_body H family weight subsets base f L st
           = (case make_filename base weight font_url of
                Inl e \<Rightarrow> Inl e
              | Inr filename \<Rightarrow>
                  Inr (Some (rtext r), dict_set (fst (snd L)) filename (content r2),
                       snd (snd L) @ [(f, filename)]),
              print_stderr (url r2) ((print_stderr (url r) (st\<lparr>world := w1\<rparr>))\<lparr>world := w2\<rparr>))"
  using assms
  by (cases L) (simp add: format_body_def requests_get_def
      raise_for_status_def Let_def print_stderr_def split: sum.splits)

lemma length_1_eq: "length xs = 1 \<Longrightarrow> \<exists>a b. xs = [(a, b)]"
  by (cases xs) auto

lemma format_body_cases:
  fixes H :: "'w http" and st :: "'w io"
  obtains
    (css_raises) msg w1 where "H (world st) (css_request family weight subsets f) = (Inl msg, w1)"
  | (css_status) r w1 where "H (world st) (css_request family weight subsets f) = (Inr r, w1)"
      "bad_status r"
  | (no_match) r w1 where "H (world st) (css_request family weight subsets f) = (Inr r, w1)"
      "\<not> bad_status r" "length (finditer (rtext r)) \<noteq> 1"
  | (font_raises) r w1 g0 font_url msg w2 where
      "H (world st) (css_request family weight subsets f) = (Inr r, w1)"
      "\<not> bad_status r" "finditer (rtext r) = [(g0, font_url)]"
      "H w1 (font_request font_url f) = (Inl msg, w2)"
  | (font_status) r w1 g0 font_url r2 w2 where
      "H (world st) (css_request family weight subsets f) = (Inr r, w1)"
      "\<not> bad_status r" "finditer (rtext r) = [(g0, font_url)]"
      "H w1 (font_request font_url f) = (Inr r2, w2)" "bad_status r2"
  | (fetched) r w1 g0 font_url r2 w2 where
      "H (world st) (css_request family weight subsets f) = (Inr r, w1)"
      "\<not> bad_status r" "finditer (rtext r) = [(g0, font_url)]"
      "H w1 (font_request font_url f) = (Inr r2, w2)" "\<not> bad_status r2"
proof -
  obtain ans w1 where h1: "H (world st) (css_request family weight subsets f) = (ans, w1)"
    by (cases "H (world st) (css_request family weight subsets f)") auto
  show thesis
  proof (cases ans)
    case (Inl msg)
    with h1 show thesis using css_raises by blast
  next
    case (Inr r)
    note r = this
    show thesis
    proof (cases "bad_status r")
      case True
      with h1 r show thesis using css_status by blast
    next
      case False
      note ok = this
      show thesis
      proof (cases "length (finditer (rtext r)) = 1")
        case False
        with h1 r ok show thesis using no_match by blast
      next
        case True
        then obtain g0 font_url where m: "finditer (rtext r) = [(g0, font_url)]"
          using length_1_eq by blast
        obtain ans2 w2 where h2: "H w1 (font_request font_url f) = (ans2, w2)"
          by (cases "H w1 (font_request font_url f)") auto
        show thesis
        proof (cases ans2)
          case (Inl msg)
          with h1 r ok m h2 show thesis using font_raises by blast
        next
          case (Inr r2)
          with h1 r ok m h2 show thesis
            using font_status fetched by (cases "bad_status r2") blast+
        qed
      qed
    qed
  qed
qed



subsection \<open>The extension in the filename\<close>

lemma tl_dropWhile_suffix:
  "x \<in> set xs \<Longrightarrow> \<exists>p. xs = p @ tl (dropWhile (\<lambda>c. c \<noteq> x) xs)"
proof (induction xs)
  case Nil
  then show ?case by simp
next
  case (Cons a xs)
  show ?case
  proof (cases "a = x")
    case True
    then have "a # xs = [a] @ tl (dropWhile (\<lambda>c. c \<noteq> x) (a # xs))" by simp
    then show ?thesis by (rule exI)
  next
    case False
    with Cons obtain p where "xs = p @ tl (dropWhile (\<lambda>c. c \<noteq> x) xs)" by auto
    then have "a # xs = (a # p) @ tl (dropWhile (\<lambda>c. c \<noteq> x) (a # xs))" using False by simp
    then show ?thesis by (rule exI)
  qed
qed

lemma dropWhile_suffix: "\<exists>p. xs = p @ dropWhile P xs"
proof
  show "xs = takeWhile P xs @ dropWhile P xs" by simp
qed

lemma drop_suffix: "\<exists>p. xs = p @ drop n xs"
proof
  show "xs = take n xs @ drop n xs" by simp
qed

lemma rev_takeWhile_suffix: "\<exists>p. xs = p @ rev (takeWhile P (rev xs))"
proof
  have "rev (dropWhile P (rev xs)) @ rev (takeWhile P (rev xs))
          = rev (takeWhile P (rev xs) @ dropWhile P (rev xs))"
    by (simp only: rev_append)
  also have "\<dots> = rev (rev xs)" by (simp only: takeWhile_dropWhile_id)
  finally show "xs = rev (dropWhile P (rev xs)) @ rev (takeWhile P (rev xs))" by simp
qed

lemma suffix_trans: "\<exists>p. xs = p @ ys \<Longrightarrow> \<exists>q. ys = q @ zs \<Longrightarrow> \<exists>r. xs = r @ (zs :: 'a list)"
proof -
  assume "\<exists>p. xs = p @ ys" and "\<exists>q. ys = q @ zs"
  then obtain p q where "xs = p @ ys" "ys = q @ zs" by blast
  then have "xs = (p @ q) @ zs" by simp
  then show ?thesis by (rule exI)
qed

lemma suffix_url_path: "\<exists>p. url_hier u = p @ url_path u"
proof -
  let ?h = "url_hier u"
  let ?r = "if has_scheme ?h then tl (dropWhile (\<lambda>c. c \<noteq> CHR '':'') ?h) else ?h"
  have r: "\<exists>p. ?h = p @ ?r"
  proof (cases "has_scheme ?h")
    case False
    then have "?h = [] @ ?r" by simp
    then show ?thesis by (rule exI)
  next
    case True
    then have "CHR '':'' \<in> set ?h" by (simp add: has_scheme_def Let_def)
    from tl_dropWhile_suffix [OF this] show ?thesis using True by simp
  qed
  have p: "\<exists>p. ?r = p @ url_path u"
  proof (cases "take 2 ?r = ''//''")
    case False
    then have "?r = [] @ url_path u" by (simp add: url_path_def Let_def)
    then show ?thesis by (rule exI)
  next
    case True
    then have e: "url_path u = dropWhile (\<lambda>c. c \<noteq> CHR ''/'') (drop 2 ?r)"
      by (simp add: url_path_def Let_def)
    show ?thesis unfolding e by (rule suffix_trans [OF drop_suffix dropWhile_suffix])
  qed
  from r p show ?thesis by (rule suffix_trans)
qed

lemma suffix_last_segment: "\<exists>pre. url_hier u = pre @ last_path_segment u"
  unfolding last_path_segment_def
  by (rule suffix_trans [OF suffix_url_path rev_takeWhile_suffix])

lemma url_hier_plain:
  "CHR ''?'' \<notin> set u \<Longrightarrow> CHR ''#'' \<notin> set u \<Longrightarrow> url_hier u = u"
  unfolding url_hier_def by (induction u) auto

lemma spec_extension_agrees:
  assumes "CHR ''?'' \<notin> set u" and "CHR ''#'' \<notin> set u"
    and "CHR ''.'' \<in> set (last_path_segment u)"
  shows "\<exists>e. spec_extension u = Some e \<and> extension u = Inr e"
proof -
  from suffix_last_segment [of u] assms(1,2) obtain pre where u: "u = pre @ last_path_segment u"
    by (auto simp: url_hier_plain)
  let ?seg = "last_path_segment u"
  have "CHR ''.'' \<in> set (rev ?seg)" using assms(3) by simp
  then have "takeWhile (\<lambda>c. c \<noteq> CHR ''.'') (rev ?seg @ rev pre) = takeWhile (\<lambda>c. c \<noteq> CHR ''.'') (rev ?seg)"
    by (intro takeWhile_append1) auto
  moreover have "rev u = rev ?seg @ rev pre" by (subst u) simp
  ultimately have t: "takeWhile (\<lambda>c. c \<noteq> CHR ''.'') (rev u) = takeWhile (\<lambda>c. c \<noteq> CHR ''.'') (rev ?seg)"
    by simp
  have "set u = set pre \<union> set ?seg" by (subst u) simp
  then have d: "CHR ''.'' \<in> set u" using assms(3) by simp
  show ?thesis using assms(3) d t by (simp add: spec_extension_def suffix_after_final_dot_def extension_eq)
qed

text \<open>
  C5, as stated, fails, in two ways. A URL whose last path segment has no dot, with a dot
  in the host name, gets the text after the host's last dot as its extension, which is
  no suffix of the last path segment. A URL with a dot in its query gets the text after
  that dot, while the suffix after the final dot of its last path segment is another.
\<close>

theorem extension_counterexample:
  "extension ''https://fonts.gstatic.com/s/opensans/v40/mem8YaGs'' = Inr ''com/s/opensans/v40/mem8YaGs''
   \<and> last_path_segment ''https://fonts.gstatic.com/s/opensans/v40/mem8YaGs'' = ''mem8YaGs''
   \<and> spec_extension ''https://fonts.gstatic.com/s/opensans/v40/mem8YaGs'' = None
   \<and> extension ''https://h/a.woff?v=1.2'' = Inr ''2''
   \<and> last_path_segment ''https://h/a.woff?v=1.2'' = ''a.woff''
   \<and> spec_extension ''https://h/a.woff?v=1.2'' = Some ''woff''"
  by code_simp

text \<open>
  C5, amended. For every extracted URL that contains a dot, the extension appended to the
  local filename, and so the name under which the loop body stores the file, is the text
  after the final dot of the whole URL. It is the suffix after the final dot of the URL's
  last path segment when the URL has no query and no fragment and that segment contains a
  dot.
\<close>

theorem extension_whole_url:
  "(CHR ''.'' \<notin> set ext \<longrightarrow>
      make_filename base weight (pre @ ''.'' @ ext)
        = Inr (base @ ''-'' @ weight_label weight @ ''.'' @ ext))
   \<and> (H (world st) (css_request family weight subsets f) = (Inr r, w1) \<and> \<not> bad_status r
       \<and> finditer (rtext r) = [(g0, pre @ ''.'' @ ext)]
       \<and> H w1 (font_request (pre @ ''.'' @ ext) f) = (Inr r2, w2) \<and> \<not> bad_status r2
       \<and> CHR ''.'' \<notin> set ext \<longrightarrow>
        fst (format_body H family weight subsets base f (css_part, files, fff) st)
          = Inr (Some (rtext r),
                 dict_set files (base @ ''-'' @ weight_label weight @ ''.'' @ ext) (content r2),
                 fff @ [(f, base @ ''-'' @ weight_label weight @ ''.'' @ ext)]))
   \<and> (CHR ''?'' \<notin> set font_url \<and> CHR ''#'' \<notin> set font_url
       \<and> CHR ''.'' \<in> set (last_path_segment font_url) \<longrightarrow>
        (\<exists>e. spec_extension font_url = Some e
           \<and> make_filename base weight font_url
               = Inr (base @ ''-'' @ weight_label weight @ ''.'' @ e)))"
proof (intro conjI impI)
  assume "CHR ''.'' \<notin> set ext"
  then show "make_filename base weight (pre @ ''.'' @ ext)
        = Inr (base @ ''-'' @ weight_label weight @ ''.'' @ ext)"
    by (simp add: make_filename_def extension_append)
next
  assume a: "H (world st) (css_request family weight subsets f) = (Inr r, w1) \<and> \<not> bad_status r
       \<and> finditer (rtext r) = [(g0, pre @ ''.'' @ ext)]
       \<and> H w1 (font_request (pre @ ''.'' @ ext) f) = (Inr r2, w2) \<and> \<not> bad_status r2
       \<and> CHR ''.'' \<notin> set ext"
  then have m: "make_filename base weight (pre @ ''.'' @ ext)
        = Inr (base @ ''-'' @ weight_label weight @ ''.'' @ ext)"
    by (simp add: make_filename_def extension_append)
  from a have h: "H (world st) (css_request family weight subsets f) = (Inr r, w1)"
    "\<not> bad_status r" "finditer (rtext r) = [(g0, pre @ ''.'' @ ext)]"
    "H w1 (font_request (pre @ ''.'' @ ext) f) = (Inr r2, w2)" "\<not> bad_status r2"
    by simp_all
  show "fst (format_body H family weight subsets base f (css_part, files, fff) st)
          = Inr (Some (rtext r),
                 dict_set files (base @ ''-'' @ weight_label weight @ ''.'' @ ext) (content r2),
                 fff @ [(f, base @ ''-'' @ weight_label weight @ ''.'' @ ext)])"
    unfolding format_body_fetched [where H = H and st = st and base = base
        and L = "(css_part, files, fff)", OF h] m
    by simp
next
  assume "CHR ''?'' \<notin> set font_url \<and> CHR ''#'' \<notin> set font_url
       \<and> CHR ''.'' \<in> set (last_path_segment font_url)"
  then obtain e where "spec_extension font_url = Some e" "extension font_url = Inr e"
    using spec_extension_agrees [of font_url] by blast
  then show "\<exists>e. spec_extension font_url = Some e
           \<and> make_filename base weight font_url
               = Inr (base @ ''-'' @ weight_label weight @ ''.'' @ e)"
    by (simp add: make_filename_def)
qed

theorem extension_whole_url_witness:
  "CHR ''.'' \<notin> set ''woff2''
   \<and> make_filename ''lato-latin'' ''700i'' (''https://fonts.example/f700'' @ ''.'' @ ''woff2'')
       = Inr ''lato-latin-700italic.woff2''
   \<and> fst (format_body sample_world ''Lato'' ''700i'' [''latin''] ''lato-latin'' (FONT_FORMATS ! 1)
            (None, [], []) \<lparr>world = 0, stderr = []\<rparr>)
       = Inr (Some (sample_css ''https://fonts.example/f700.woff2'' ''woff2''),
              [(''lato-latin-700italic.woff2'', [0x77, 0x4F, 0x46])],
              [(FONT_FORMATS ! 1, ''lato-latin-700italic.woff2'')])
   \<and> CHR ''.'' \<in> set (last_path_segment ''https://fonts.example/f700.woff2'')
   \<and> spec_extension ''https://fonts.example/f700.woff2'' = Some ''woff2''"
proof -
  let ?u = "''https://fonts.example/f700'' @ ''.'' @ ''woff2''"
  let ?r = "\<lparr>status_code = 200, url = GOOGLE_FONTS_API,
             rtext = sample_css ''https://fonts.example/f700.woff2'' ''woff2'', content = []\<rparr>"
  let ?r2 = "\<lparr>status_code = 200, url = ''https://fonts.example/f700.woff2'', rtext = [],
              content = [0x77, 0x4F, 0x46 :: 8 word]\<rparr>"
  let ?st = "\<lparr>world = 0 :: nat, stderr = []\<rparr>"
  have h1: "CHR ''.'' \<notin> set ''woff2''" by simp
  have h2: "sample_world (world ?st) (css_request ''Lato'' ''700i'' [''latin''] (FONT_FORMATS ! 1)) = (Inr ?r, 1)"
    by code_simp
  have h3: "\<not> bad_status ?r" by (simp add: bad_status_def)
  have h4: "finditer (rtext ?r) =
      [(''src: url(https://fonts.example/f700.woff2) format('' @ [SQ] @ ''woff2'' @ [SQ] @ '');'' @ [NL], ?u)]"
    by code_simp
  have h5: "sample_world 1 (font_request ?u (FONT_FORMATS ! 1)) = (Inr ?r2, 2)"
    by code_simp
  have h6: "\<not> bad_status ?r2" by (simp add: bad_status_def)
  have h7: "CHR ''?'' \<notin> set ''https://fonts.example/f700.woff2''
      \<and> CHR ''#'' \<notin> set ''https://fonts.example/f700.woff2''
      \<and> CHR ''.'' \<in> set (last_path_segment ''https://fonts.example/f700.woff2'')"
    by code_simp
  have l: "weight_label ''700i'' = ''700italic''" by (simp add: weight_label_def endswith_def)
  note t = extension_whole_url [of "''woff2''" "''lato-latin''" "''700i''" "''https://fonts.example/f700''"
      sample_world ?st "''Lato''" "[''latin'']" "FONT_FORMATS ! 1" ?r 1
      "''src: url(https://fonts.example/f700.woff2) format('' @ [SQ] @ ''woff2'' @ [SQ] @ '');'' @ [NL]"
      ?r2 2 None "[]" "[]" "''https://fonts.example/f700.woff2''"]
  from t h1 have a: "make_filename ''lato-latin'' ''700i'' ?u
      = Inr (''lato-latin'' @ ''-'' @ weight_label ''700i'' @ ''.'' @ ''woff2'')"
    by blast
  from t h1 h2 h3 h4 h5 h6 have b:
    "fst (format_body sample_world ''Lato'' ''700i'' [''latin''] ''lato-latin'' (FONT_FORMATS ! 1)
            (None, [], []) ?st)
       = Inr (Some (rtext ?r),
              dict_set [] (''lato-latin'' @ ''-'' @ weight_label ''700i'' @ ''.'' @ ''woff2'') (content ?r2),
              [] @ [(FONT_FORMATS ! 1, ''lato-latin'' @ ''-'' @ weight_label ''700i'' @ ''.'' @ ''woff2'')])"
    by blast
  from t h7 obtain e where c: "spec_extension ''https://fonts.example/f700.woff2'' = Some e"
    "make_filename ''lato-latin'' ''700i'' ''https://fonts.example/f700.woff2''
       = Inr (''lato-latin'' @ ''-'' @ weight_label ''700i'' @ ''.'' @ e)"
    by blast
  from a c(2) have "e = ''woff2''" by simp
  with a b c(1) h1 h7 l show ?thesis by simp
qed

subsection \<open>The returned mapping\<close>

lemma keys_dict_set: "fst ` set (dict_set d k v) = insert k (fst ` set d)"
  by (induction d k v rule: dict_set.induct) auto

lemma distinct_dict_set: "distinct (map fst d) \<Longrightarrow> distinct (map fst (dict_set d k v))"
proof (induction d k v rule: dict_set.induct)
  case (1 k v)
  show ?case by simp
next
  case (2 k' v' d k v)
  have "k' \<notin> fst ` set d" using 2 by simp
  then have "k' \<noteq> k \<Longrightarrow> k' \<notin> fst ` set (dict_set d k v)"
    by (simp add: keys_dict_set)
  with 2 show ?case by auto
qed

lemma dict_set_new: "k \<notin> fst ` set d \<Longrightarrow> dict_set d k v = d @ [(k, v)]"
  by (induction d k v rule: dict_set.induct) auto

lemma keys_dict_set_all: "fst ` set (dict_set_all d kvs) = fst ` set d \<union> fst ` set kvs"
proof (induction kvs arbitrary: d)
  case Nil
  show ?case by (simp add: dict_set_all_def)
next
  case (Cons kv kvs)
  have "dict_set_all d (kv # kvs) = dict_set_all (dict_set d (fst kv) (snd kv)) kvs"
    by (simp add: dict_set_all_def)
  then show ?case by (simp add: Cons.IH keys_dict_set)
qed

lemma distinct_dict_set_all: "distinct (map fst d) \<Longrightarrow> distinct (map fst (dict_set_all d kvs))"
proof (induction kvs arbitrary: d)
  case Nil
  then show ?case by (simp add: dict_set_all_def)
next
  case (Cons kv kvs)
  have "dict_set_all d (kv # kvs) = dict_set_all (dict_set d (fst kv) (snd kv)) kvs"
    by (simp add: dict_set_all_def)
  then show ?case using Cons by (simp add: distinct_dict_set)
qed

lemma dict_set_all_append: "dict_set_all d (xs @ ys) = dict_set_all (dict_set_all d xs) ys"
  by (simp add: dict_set_all_def)

lemma dict_set_all_distinct:
  "distinct (map fst (d @ kvs)) \<Longrightarrow> dict_set_all d kvs = d @ kvs"
proof (induction kvs arbitrary: d)
  case Nil
  show ?case by (simp add: dict_set_all_def)
next
  case (Cons kv kvs)
  have new: "fst kv \<notin> fst ` set d" using Cons.prems by auto
  have "dict_set_all d (kv # kvs) = dict_set_all (dict_set d (fst kv) (snd kv)) kvs"
    by (simp add: dict_set_all_def)
  also have "\<dots> = dict_set_all (d @ [kv]) kvs" using new by (simp add: dict_set_new)
  also have "\<dots> = (d @ [kv]) @ kvs" using Cons.prems by (intro Cons.IH) simp
  finally show ?case by simp
qed

subsection \<open>Failures\<close>

lemma recording_step:
  assumes "recording H wl req = (ans, wl')"
  shows "H (fst wl) req = (ans, fst wl')" and "snd wl' = snd wl @ [(req, ans)]"
  using assms by (auto simp: recording_def split: prod.splits)

lemma world_unrecorded [simp]: "world (unrecorded st) = fst (world st)"
  by (simp add: unrecorded_def)

lemma unrecorded_world_update [simp]: "unrecorded (st\<lparr>world := w\<rparr>) = (unrecorded st)\<lparr>world := fst w\<rparr>"
  by (simp add: unrecorded_def)

lemma unrecorded_print [simp]: "unrecorded (print_stderr l st) = print_stderr l (unrecorded st)"
  by (simp add: unrecorded_def print_stderr_def)

lemma world_print [simp]: "world (print_stderr l st) = world st"
  by (simp add: print_stderr_def)

lemma css_request_is_css [simp]: "is_css_request (css_request family weight subsets f)"
  by (simp add: is_css_request_def css_request_def)

lemma font_request_not_css [simp]: "\<not> is_css_request (font_request u f)"
  by (simp add: is_css_request_def font_request_def)

lemma make_filename_error: "make_filename base weight u = Inl e \<Longrightarrow> e = IndexError"
  by (auto simp: make_filename_def extension_eq split: sum.splits if_splits)

lemma seg_inv_append:
  "all_fine n1 \<Longrightarrow> seg_inv res n2 \<Longrightarrow> seg_inv res (n1 @ n2)"
  by (auto simp: seg_inv_def all_fine_def butlast_append split: sum.splits)

lemma format_body_traced:
  "traced (format_body (recording H) family weight subsets base f L st) st
          (format_body H family weight subsets base f L (unrecorded st))"
proof (cases rule: format_body_cases [of "recording H" st family weight subsets f])
  case (css_raises msg w1)
  note s = recording_step [OF css_raises]
  have p: "H (world (unrecorded st)) (css_request family weight subsets f) = (Inl msg, fst w1)"
    using s(1) by simp
  show ?thesis
    unfolding format_body_css_raises [where H = "recording H" and st = st, OF css_raises]
      format_body_css_raises [where H = H and st = "unrecorded st", OF p]
    by (simp add: traced_def s(2) seg_inv_def all_fine_def)
next
  case (css_status r w1)
  note s = recording_step [OF css_status(1)]
  have p: "H (world (unrecorded st)) (css_request family weight subsets f) = (Inr r, fst w1)"
    using s(1) by simp
  show ?thesis
    unfolding format_body_css_status [where H = "recording H" and st = st, OF css_status]
      format_body_css_status [where H = H and st = "unrecorded st", OF p css_status(2)]
    by (simp add: traced_def s(2) seg_inv_def all_fine_def css_status(2))
next
  case (no_match r w1)
  note s = recording_step [OF no_match(1)]
  have p: "H (world (unrecorded st)) (css_request family weight subsets f) = (Inr r, fst w1)"
    using s(1) by simp
  show ?thesis
    unfolding format_body_no_match [where H = "recording H" and st = st, OF no_match]
      format_body_no_match [where H = H and st = "unrecorded st", OF p no_match(2,3)]
    using no_match(2,3) by (simp add: traced_def s(2) seg_inv_def all_fine_def)
next
  case (font_raises r w1 g0 font_url msg w2)
  note s = recording_step [OF font_raises(1)]
  note t = recording_step [OF font_raises(4)]
  have p: "H (world (unrecorded st)) (css_request family weight subsets f) = (Inr r, fst w1)"
    using s(1) by simp
  show ?thesis
    unfolding format_body_font_raises [where H = "recording H" and st = st, OF font_raises]
      format_body_font_raises [where H = H and st = "unrecorded st", OF p font_raises(2,3) t(1)]
    using font_raises(2,3) by (simp add: traced_def s(2) t(2) seg_inv_def all_fine_def)
next
  case (font_status r w1 g0 font_url r2 w2)
  note s = recording_step [OF font_status(1)]
  note t = recording_step [OF font_status(4)]
  have p: "H (world (unrecorded st)) (css_request family weight subsets f) = (Inr r, fst w1)"
    using s(1) by simp
  show ?thesis
    unfolding format_body_font_status [where H = "recording H" and st = st, OF font_status]
      format_body_font_status [where H = H and st = "unrecorded st", OF p font_status(2,3) t(1) font_status(5)]
    using font_status(2,3,5) by (simp add: traced_def s(2) t(2) seg_inv_def all_fine_def)
next
  case (fetched r w1 g0 font_url r2 w2)
  note s = recording_step [OF fetched(1)]
  note t = recording_step [OF fetched(4)]
  have p: "H (world (unrecorded st)) (css_request family weight subsets f) = (Inr r, fst w1)"
    using s(1) by simp
  have fine: "all_fine [(css_request family weight subsets f, Inr r), (font_request font_url f, Inr r2)]"
    using fetched(2,3,5) by (simp add: all_fine_def)
  show ?thesis
    unfolding format_body_fetched [where H = "recording H" and st = st, OF fetched]
      format_body_fetched [where H = H and st = "unrecorded st", OF p fetched(2,3) t(1) fetched(5)]
    using fine
    by (auto simp: traced_def s(2) t(2) seg_inv_def local_error_def
        dest: make_filename_error split: sum.splits)
qed

lemma traced_D:
  assumes "traced (res, st1) st plain"
  shows "plain = (res, unrecorded st1)"
  using assms by (simp add: traced_def)

lemma traced_refl: "traced (Inr a, st) st (Inr a, unrecorded st)"
  by (simp add: traced_def seg_inv_def all_fine_def)

lemma traced_fail:
  fixes a :: 'a and st1 :: "('w \<times> exchange list) io"
  assumes "traced (Inl e :: exn + 'a, st1) st (Inl e, p)"
  shows "traced (Inl e :: exn + 'b, st1) st (Inl e, p)"
  using assms by (simp add: traced_def seg_inv_def)

lemma traced_trans:
  assumes "traced (Inr a, st1) st (Inr a, p1)" and "traced out st1 plain"
  shows "traced out st plain"
proof -
  from assms(1) obtain n1 where n1: "snd (world st1) = snd (world st) @ n1" "all_fine n1"
    by (auto simp: traced_def seg_inv_def)
  from assms(2) obtain n2 where n2: "snd (world (snd out)) = snd (world st1) @ n2"
    "seg_inv (fst out) n2" and pl: "plain = (fst out, unrecorded (snd out))"
    by (auto simp: traced_def)
  have "snd (world (snd out)) = snd (world st) @ (n1 @ n2)" using n1 n2 by simp
  moreover have "seg_inv (fst out) (n1 @ n2)" using n1(2) n2(2) by (rule seg_inv_append)
  ultimately show ?thesis using pl unfolding traced_def by blast
qed

lemma traced_local:
  assumes "traced (Inr a, st1) st (Inr a, p1)" and "local_error e"
  shows "traced (Inl e, st1) st (Inl e, p1)"
  using assms by (auto simp: traced_def seg_inv_def)

lemma traced_value:
  assumes "traced (Inr a, st1) st (Inr a, p1)"
  shows "traced (Inr b, st1) st (Inr b, p1)"
  using assms by (auto simp: traced_def seg_inv_def)

lemma format_loop_traced:
  "traced (format_loop (recording H) family weight subsets base fs L st) st
          (format_loop H family weight subsets base fs L (unrecorded st))"
proof (induction fs arbitrary: L st)
  case Nil
  show ?case by (simp add: traced_refl)
next
  case (Cons f fs)
  obtain res1 st1 where b: "format_body (recording H) family weight subsets base f L st = (res1, st1)"
    by (cases "format_body (recording H) family weight subsets base f L st") auto
  have t: "traced (res1, st1) st (format_body H family weight subsets base f L (unrecorded st))"
    using format_body_traced [of H family weight subsets base f L st] b by simp
  note p = traced_D [OF t]
  show ?case
  proof (cases res1)
    case (Inl e)
    with t p have "traced (Inl e :: exn + locals, st1) st (Inl e, unrecorded st1)" by simp
    then show ?thesis using b p Inl by simp
  next
    case (Inr L1)
    with t p have "traced (Inr L1, st1) st (Inr L1, unrecorded st1)" by simp
    from traced_trans [OF this Cons.IH [of L1 st1]] show ?thesis using b p Inr by simp
  qed
qed

lemma exn_of_template_error_local: "local_error (exn_of_template_error e)"
  by (cases e) (simp_all add: local_error_def)

lemma weight_body_traced:
  "traced (weight_body (recording H) esc family subsets base weight V st) st
          (weight_body H esc family subsets base weight V (unrecorded st))"
proof -
  obtain css_part files css where V: "V = (css_part, files, css)" by (cases V) auto
  obtain res1 st1 where l:
    "format_loop (recording H) family weight subsets base FONT_FORMATS (css_part, files, []) st = (res1, st1)"
    by (cases "format_loop (recording H) family weight subsets base FONT_FORMATS (css_part, files, []) st") auto
  have t: "traced (res1, st1) st
             (format_loop H family weight subsets base FONT_FORMATS (css_part, files, []) (unrecorded st))"
    using format_loop_traced [of H family weight subsets base FONT_FORMATS "(css_part, files, [])" st] l
    by simp
  note p = traced_D [OF t]
  show ?thesis
  proof (cases res1)
    case (Inl e)
    with t p have "traced (Inl e :: exn + locals, st1) st (Inl e, unrecorded st1)" by simp
    then have "traced (Inl e :: exn + outer, st1) st (Inl e, unrecorded st1)" by (rule traced_fail)
    then show ?thesis using l p Inl V by (simp add: weight_body_def)
  next
    case (Inr L1)
    obtain css_part' files' fff where L1: "L1 = (css_part', files', fff)" by (cases L1) auto
    from t p Inr have ok: "traced (Inr L1, st1) st (Inr L1, unrecorded st1)" by simp
    show ?thesis
    proof (cases css_part')
      case None
      have "traced (Inl UnboundLocalError :: exn + outer, st1) st (Inl UnboundLocalError, unrecorded st1)"
        using ok by (rule traced_local) (simp add: local_error_def)
      then show ?thesis using l p Inr V L1 None by (simp add: weight_body_def)
    next
      case (Some part)
      show ?thesis
      proof (cases "re_sub esc (make_new_src fff) part")
        case (Inl e)
        then have "local_error e"
          by (auto simp: re_sub_def exn_of_template_error_local split: sum.splits)
        with ok have "traced (Inl e :: exn + outer, st1) st (Inl e, unrecorded st1)"
          by (rule traced_local)
        then show ?thesis using l p Inr V L1 Some Inl by (simp add: weight_body_def)
      next
        case (Inr snippet)
        from ok have "traced (Inr (css_part', files', css @ [snippet]), st1) st
                        (Inr (css_part', files', css @ [snippet]), unrecorded st1)"
          by (rule traced_value)
        then show ?thesis using l p \<open>res1 = Inr L1\<close> V L1 Some Inr by (simp add: weight_body_def)
      qed
    qed
  qed
qed

lemma weight_loop_traced:
  "traced (weight_loop (recording H) esc family subsets base ws V st) st
          (weight_loop H esc family subsets base ws V (unrecorded st))"
proof (induction ws arbitrary: V st)
  case Nil
  show ?case by (simp add: traced_refl)
next
  case (Cons w ws)
  obtain res1 st1 where b: "weight_body (recording H) esc family subsets base w V st = (res1, st1)"
    by (cases "weight_body (recording H) esc family subsets base w V st") auto
  have t: "traced (res1, st1) st (weight_body H esc family subsets base w V (unrecorded st))"
    using weight_body_traced [of H esc family subsets base w V st] b by simp
  note p = traced_D [OF t]
  show ?case
  proof (cases res1)
    case (Inl e)
    with t p have "traced (Inl e :: exn + outer, st1) st (Inl e, unrecorded st1)" by simp
    then show ?thesis using b p Inl by simp
  next
    case (Inr V1)
    with t p have "traced (Inr V1, st1) st (Inr V1, unrecorded st1)" by simp
    from traced_trans [OF this Cons.IH [of V1 st1]] show ?thesis using b p Inr by simp
  qed
qed

lemma download_traced:
  "traced (download_font_files (recording H) esc family weights subsets italic st) st
          (download_font_files H esc family weights subsets italic (unrecorded st))"
proof -
  let ?ws = "expand_weights weights italic" and ?base = "get_base_filename family subsets"
  obtain res1 st1 where l:
    "weight_loop (recording H) esc family subsets ?base ?ws (None, [], []) st = (res1, st1)"
    by (cases "weight_loop (recording H) esc family subsets ?base ?ws (None, [], []) st") auto
  have t: "traced (res1, st1) st
             (weight_loop H esc family subsets ?base ?ws (None, [], []) (unrecorded st))"
    using weight_loop_traced [of H esc family subsets ?base ?ws "(None, [], [])" st] l by simp
  note p = traced_D [OF t]
  show ?thesis
  proof (cases res1)
    case (Inl e)
    with t p have "traced (Inl e :: exn + outer, st1) st (Inl e, unrecorded st1)" by simp
    then have "traced (Inl e :: exn + (string \<times> bytes) list, st1) st (Inl e, unrecorded st1)"
      by (rule traced_fail)
    then show ?thesis using l p Inl by (simp add: download_font_files_def)
  next
    case (Inr V1)
    obtain css_part files css where V1: "V1 = (css_part, files, css)" by (cases V1) auto
    from t p Inr have "traced (Inr V1, st1) st (Inr V1, unrecorded st1)" by simp
    then have "traced (Inr (dict_set files (?base @ ''.css'') (encode_utf8 (join [NL] css))), st1) st
                 (Inr (dict_set files (?base @ ''.css'') (encode_utf8 (join [NL] css))), unrecorded st1)"
      by (rule traced_value)
    then show ?thesis using l p Inr V1 by (simp add: download_font_files_def)
  qed
qed

lemma run_seg_inv:
  fixes st :: "'w io"
  assumes "download_font_files H esc family weights subsets italic st = (res, st')"
  shows "seg_inv res (exchanges H esc family weights subsets italic st)"
proof -
  let ?st = "\<lparr>world = (world st, [] :: exchange list), stderr = stderr st\<rparr>"
  have u: "unrecorded ?st = st" by (simp add: unrecorded_def)
  from download_traced [of H esc family weights subsets italic ?st]
  show ?thesis using assms by (auto simp: traced_def u exchanges_def)
qed

lemma seg_inv_failure:
  assumes "seg_inv res xs" and "x \<in> set xs" and "failure_of x = Some e"
  shows "res = Inl e \<and> x = last xs"
proof (cases res)
  case (Inr a)
  with assms show ?thesis by (auto simp: seg_inv_def all_fine_def list_all_iff)
next
  case (Inl e')
  from assms(2,3) have nf: "\<not> all_fine xs" by (auto simp: all_fine_def list_all_iff)
  with assms(1) Inl have ne: "xs \<noteq> []" and bl: "all_fine (butlast xs)"
    and la: "failure_of (last xs) = Some e'"
    by (auto simp: seg_inv_def)
  from ne have "xs = butlast xs @ [last xs]" by simp
  then have "x \<in> set (butlast xs) \<or> x = last xs" using assms(2)
    by (metis Un_iff empty_iff empty_set insert_iff list.simps(15) set_append)
  moreover have "x \<notin> set (butlast xs)" using bl assms(3) by (auto simp: all_fine_def list_all_iff)
  ultimately have "x = last xs" by blast
  with la assms(3) Inl show ?thesis by simp
qed

text \<open>
  C1. Whatever the input, when an exchange of the run fails (a failure status from the CSS
  endpoint, a failure status from the font endpoint, a CSS text without exactly one match,
  or an exception of the transport), the run ends there: it returns that error and no
  mapping, whole or partial.
\<close>

theorem failure_aborts:
  fixes st :: "'w io"
  assumes "download_font_files H esc family weights subsets italic st = (res, st')"
    and "x \<in> set (exchanges H esc family weights subsets italic st)"
    and "failure_of x = Some e"
  shows "res = Inl e \<and> (\<forall>files. res \<noteq> Inr files)
         \<and> x = last (exchanges H esc family weights subsets italic st)"
  using seg_inv_failure [OF run_seg_inv [OF assms(1)] assms(2,3)] by simp

theorem failure_aborts_witness:
  "download_font_files missing_font_world (\<lambda>t. Inl BadEscape) ''Lato'' [''700''] [''latin''] False
       \<lparr>world = 0, stderr = []\<rparr>
     = (Inl (HTTPError 404 ''https://fonts.example/f700.woff''),
        \<lparr>world = 2, stderr = [''https://fonts.googleapis.com/css'']\<rparr>)
   \<and> (font_request ''https://fonts.example/f700.woff'' (FONT_FORMATS ! 0),
       Inr \<lparr>status_code = 404, url = ''https://fonts.example/f700.woff'', rtext = [],
            content = [0x77, 0x4F, 0x46]\<rparr>)
       = last (exchanges missing_font_world (\<lambda>t. Inl BadEscape) ''Lato'' [''700''] [''latin''] False
                 \<lparr>world = 0, stderr = []\<rparr>)"
proof -
  let ?x = "(font_request ''https://fonts.example/f700.woff'' (FONT_FORMATS ! 0),
       Inr \<lparr>status_code = 404, url = ''https://fonts.example/f700.woff'', rtext = [],
            content = [0x77, 0x4F, 0x46 :: 8 word]\<rparr>)"
  have run: "download_font_files missing_font_world (\<lambda>t. Inl BadEscape) ''Lato'' [''700''] [''latin''] False
       \<lparr>world = 0, stderr = []\<rparr>
     = (Inl (HTTPError 404 ''https://fonts.example/f700.woff''),
        \<lparr>world = 2, stderr = [''https://fonts.googleapis.com/css'']\<rparr>)"
    by code_simp
  have mem: "?x \<in> set (exchanges missing_font_world (\<lambda>t. Inl BadEscape) ''Lato'' [''700''] [''latin''] False
                 \<lparr>world = 0, stderr = []\<rparr>)"
    by code_simp
  have fail: "failure_of ?x = Some (HTTPError 404 ''https://fonts.example/f700.woff'')"
    by (simp add: bad_status_def)
  from failure_aborts [OF run mem fail] run show ?thesis by simp
qed

text \<open>
  C2, as stated, fails, in two ways. The message of the pattern error is
  \<open>Failed to query google fonts for URL: <url>\<close>, which does not contain
  \<open>failed to query for URL\<close>. And a CSS response with a failure status and no match makes
  the run fail with \<open>HTTPError\<close>, before the matches are counted.
\<close>

theorem message_counterexample:
  "download_font_files two_faces_world (\<lambda>t. Inl BadEscape) ''Lato'' [''700''] [''latin''] False
       \<lparr>world = 0, stderr = []\<rparr>
     = (Inl (RuntimeError ''Failed to query google fonts for URL: https://fonts.googleapis.com/css''),
        \<lparr>world = 3,
          stderr = [''https://fonts.googleapis.com/css'', ''https://fonts.example/f700.woff'',
                    ''https://fonts.googleapis.com/css'']\<rparr>)
   \<and> \<not> contains ''Failed to query google fonts for URL: https://fonts.googleapis.com/css''
                  ''failed to query for URL''
   \<and> download_font_files refused_css_world (\<lambda>t. Inl BadEscape) ''Lato'' [''700''] [''latin''] False
       \<lparr>world = 0, stderr = []\<rparr>
     = (Inl (HTTPError 404 ''https://fonts.googleapis.com/css''), \<lparr>world = 1, stderr = []\<rparr>)
   \<and> exchanges refused_css_world (\<lambda>t. Inl BadEscape) ''Lato'' [''700''] [''latin''] False
       \<lparr>world = 0, stderr = []\<rparr>
     = [(css_request ''Lato'' ''700'' [''latin''] (FONT_FORMATS ! 0),
         Inr \<lparr>status_code = 404, url = ''https://fonts.googleapis.com/css'', rtext = [], content = []\<rparr>)]
   \<and> length (finditer []) = 0"
  by code_simp

text \<open>
  C2, amended. A run fails with the pattern error, \<open>RuntimeError\<close> with the message
  \<open>Failed to query google fonts for URL: <url>\<close>, if and only if a CSS response of the run
  that has no failure status has a number of matches of the pattern other than one; it
  then returns no mapping.
\<close>

theorem pattern_failure_iff:
  fixes st :: "'w io"
  assumes "download_font_files H esc family weights subsets italic st = (res, st')"
  shows "((\<exists>msg. res = Inl (RuntimeError msg)) \<longleftrightarrow>
          (\<exists>req r. (req, Inr r) \<in> set (exchanges H esc family weights subsets italic st)
                   \<and> is_css_request req \<and> \<not> bad_status r \<and> length (finditer (rtext r)) \<noteq> 1))
         \<and> (\<forall>req r. (req, Inr r) \<in> set (exchanges H esc family weights subsets italic st)
                   \<and> is_css_request req \<and> \<not> bad_status r \<and> length (finditer (rtext r)) \<noteq> 1
               \<longrightarrow> res = Inl (RuntimeError (''Failed to query google fonts for URL: '' @ url r)))"
proof -
  let ?xs = "exchanges H esc family weights subsets italic st"
  note inv = run_seg_inv [OF assms]
  have b: "res = Inl (RuntimeError (''Failed to query google fonts for URL: '' @ url r))"
    if "(req, Inr r) \<in> set ?xs" "is_css_request req" "\<not> bad_status r"
      "length (finditer (rtext r)) \<noteq> 1" for req r
  proof -
    have "failure_of (req, Inr r)
            = Some (RuntimeError (''Failed to query google fonts for URL: '' @ url r))"
      using that by simp
    from seg_inv_failure [OF inv that(1) this] show ?thesis by simp
  qed
  have a: "\<exists>req r. (req, Inr r) \<in> set ?xs \<and> is_css_request req \<and> \<not> bad_status r
              \<and> length (finditer (rtext r)) \<noteq> 1"
    if "res = Inl (RuntimeError msg)" for msg
  proof -
    from inv that have ne: "?xs \<noteq> []" and la: "failure_of (last ?xs) = Some (RuntimeError msg)"
      by (auto simp: seg_inv_def local_error_def)
    obtain req ans where x: "last ?xs = (req, ans)" by (cases "last ?xs") auto
    from la x obtain r where "ans = Inr r" "\<not> bad_status r" "is_css_request req"
      "length (finditer (rtext r)) \<noteq> 1"
      by (cases ans) (auto split: if_splits)
    moreover have "last ?xs \<in> set ?xs" using ne by simp
    ultimately show ?thesis using x by metis
  qed
  from a b show ?thesis by blast
qed

theorem pattern_failure_iff_witness:
  "download_font_files two_faces_world (\<lambda>t. Inl BadEscape) ''Lato'' [''700''] [''latin''] False
       \<lparr>world = 0, stderr = []\<rparr>
     = (Inl (RuntimeError ''Failed to query google fonts for URL: https://fonts.googleapis.com/css''),
        \<lparr>world = 3,
          stderr = [''https://fonts.googleapis.com/css'', ''https://fonts.example/f700.woff'',
                    ''https://fonts.googleapis.com/css'']\<rparr>)
   \<and> (\<exists>req r. (req, Inr r) \<in> set (exchanges two_faces_world (\<lambda>t. Inl BadEscape) ''Lato'' [''700'']
                                      [''latin''] False \<lparr>world = 0, stderr = []\<rparr>)
          \<and> is_css_request req \<and> \<not> bad_status r \<and> length (finditer (rtext r)) \<noteq> 1)"
proof -
  have run: "download_font_files two_faces_world (\<lambda>t. Inl BadEscape) ''Lato'' [''700''] [''latin''] False
       \<lparr>world = 0, stderr = []\<rparr>
     = (Inl (RuntimeError ''Failed to query google fonts for URL: https://fonts.googleapis.com/css''),
        \<lparr>world = 3,
          stderr = [''https://fonts.googleapis.com/css'', ''https://fonts.example/f700.woff'',
                    ''https://fonts.googleapis.com/css'']\<rparr>)"
    by code_simp
  from pattern_failure_iff [OF run] run show ?thesis by blast
qed

subsection \<open>Successful runs\<close>

lemma make_filename_last_dot:
  "make_filename base weight u = Inr fn \<Longrightarrow>
     CHR ''.'' \<in> set u \<and> fn = font_name base weight (last_dot_suffix u)"
  by (auto simp: make_filename_def extension_eq font_name_def last_dot_suffix_def
      split: if_splits)

lemma format_body_recorded:
  assumes "format_body (recording H) family weight subsets base f L st = (Inr L', st')"
  shows "\<exists>x. good_fetch x
           \<and> snd (world st') = snd (world st) @ fetch_exchanges family weight subsets f x
           \<and> L' = (Some (rtext (fetch_css x)),
                   dict_set (fst (snd L)) (fetch_name base weight x) (content (fetch_font x)),
                   snd (snd L) @ [(f, fetch_name base weight x)])"
proof (cases rule: format_body_cases [of "recording H" st family weight subsets f])
  case (css_raises msg w1)
  from format_body_css_raises [where H = "recording H" and st = st, OF this] assms
  show ?thesis by simp
next
  case (css_status r w1)
  from format_body_css_status [where H = "recording H" and st = st, OF this] assms
  show ?thesis by simp
next
  case (no_match r w1)
  from format_body_no_match [where H = "recording H" and st = st, OF this] assms
  show ?thesis by simp
next
  case (font_raises r w1 g0 font_url msg w2)
  from format_body_font_raises [where H = "recording H" and st = st, OF this] assms
  show ?thesis by simp
next
  case (font_status r w1 g0 font_url r2 w2)
  from format_body_font_status [where H = "recording H" and st = st, OF this] assms
  show ?thesis by simp
next
  case (fetched r w1 g0 font_url r2 w2)
  note s = recording_step [OF fetched(1)]
  note t = recording_step [OF fetched(4)]
  let ?x = "\<lparr>fetch_css = r, fetch_url = font_url, fetch_font = r2\<rparr>"
  from format_body_fetched [where H = "recording H" and st = st and base = base and L = L, OF fetched]
    assms
  obtain fn where fn: "make_filename base weight font_url = Inr fn"
    and L': "L' = (Some (rtext r), dict_set (fst (snd L)) fn (content r2), snd (snd L) @ [(f, fn)])"
    and st': "st' = print_stderr (url r2) ((print_stderr (url r) (st\<lparr>world := w1\<rparr>))\<lparr>world := w2\<rparr>)"
    by (cases "make_filename base weight font_url") auto
  from make_filename_last_dot [OF fn] have d: "CHR ''.'' \<in> set font_url"
    and n: "fn = fetch_name base weight ?x"
    by (simp_all add: fetch_name_def)
  have g: "good_fetch ?x" using fetched(2,3,5) d by (simp add: good_fetch_def)
  have "snd (world st') = snd (world st) @ fetch_exchanges family weight subsets f ?x"
    using st' s(2) t(2) by (simp add: fetch_exchanges_def)
  moreover have "L' = (Some (rtext (fetch_css ?x)),
                   dict_set (fst (snd L)) (fetch_name base weight ?x) (content (fetch_font ?x)),
                   snd (snd L) @ [(f, fetch_name base weight ?x)])"
    using L' n by simp
  ultimately show ?thesis using g by blast
qed

lemma format_loop_recorded:
  assumes "format_loop (recording H) family weight subsets base [f1, f2] (css_part, files, []) st
             = (Inr (css_part', files', fff), st')"
  shows "\<exists>x y. good_fetch x \<and> good_fetch y
           \<and> snd (world st') = snd (world st) @ fetch_exchanges family weight subsets f1 x
                                 @ fetch_exchanges family weight subsets f2 y
           \<and> css_part' = Some (rtext (fetch_css y))
           \<and> files' = dict_set_all files [fetch_entry base weight x, fetch_entry base weight y]
           \<and> fff = [(f1, fetch_name base weight x), (f2, fetch_name base weight y)]"
proof -
  from assms obtain L1 st1 where
    b1: "format_body (recording H) family weight subsets base f1 (css_part, files, []) st = (Inr L1, st1)"
    and l2: "format_loop (recording H) family weight subsets base [f2] L1 st1
               = (Inr (css_part', files', fff), st')"
    by (auto split: prod.splits sum.splits)
  from l2 have
    b2: "format_body (recording H) family weight subsets base f2 L1 st1 = (Inr (css_part', files', fff), st')"
    by (auto split: prod.splits sum.splits)
  from format_body_recorded [OF b1] obtain x where x: "good_fetch x"
    "snd (world st1) = snd (world st) @ fetch_exchanges family weight subsets f1 x"
    "L1 = (Some (rtext (fetch_css x)), dict_set files (fetch_name base weight x) (content (fetch_font x)),
           [(f1, fetch_name base weight x)])"
    by auto
  from format_body_recorded [OF b2] obtain y where y: "good_fetch y"
    "snd (world st') = snd (world st1) @ fetch_exchanges family weight subsets f2 y"
    "(css_part', files', fff) = (Some (rtext (fetch_css y)),
        dict_set (fst (snd L1)) (fetch_name base weight y) (content (fetch_font y)),
        snd (snd L1) @ [(f2, fetch_name base weight y)])"
    by auto
  have "snd (world st') = snd (world st) @ fetch_exchanges family weight subsets f1 x
                                 @ fetch_exchanges family weight subsets f2 y"
    using x(2) y(2) by simp
  moreover have "css_part' = Some (rtext (fetch_css y))" using y(3) by simp
  moreover have "files' = dict_set_all files [fetch_entry base weight x, fetch_entry base weight y]"
    using y(3) x(3) by (simp add: dict_set_all_def fetch_entry_def)
  moreover have "fff = [(f1, fetch_name base weight x), (f2, fetch_name base weight y)]"
    using y(3) x(3) by simp
  ultimately show ?thesis using x(1) y(1) by blast
qed

lemma make_new_src_spec:
  "make_new_src [(FONT_FORMATS ! 0, woff_file), (FONT_FORMATS ! 1, woff2_file)]
     = spec_declaration woff_file woff2_file"
  by (simp add: make_new_src_def source_entry_def spec_declaration_def FONT_FORMATS_def)

lemma weight_body_recorded:
  assumes "weight_body (recording H) esc family subsets base weight (css_part, files, css) st
             = (Inr V', st')"
  shows "\<exists>xy sn. good_fetch (fst xy) \<and> good_fetch (snd xy)
           \<and> snd (world st') = snd (world st) @ weight_exchanges family subsets weight xy
           \<and> snippet_of esc base weight xy sn
           \<and> V' = (Some (rtext (fetch_css (snd xy))),
                   dict_set_all files (weight_entries base weight xy), css @ [sn])"
proof -
  from assms obtain css_part' files' fff st1 where
    l: "format_loop (recording H) family weight subsets base [FONT_FORMATS ! 0, FONT_FORMATS ! 1]
          (css_part, files, []) st = (Inr (css_part', files', fff), st1)"
    and l0: "format_loop (recording H) family weight subsets base FONT_FORMATS
          (css_part, files, []) st = (Inr (css_part', files', fff), st1)"
    by (auto simp: weight_body_def FONT_FORMATS_def split: prod.splits sum.splits)
  from format_loop_recorded [OF l] obtain x y where g: "good_fetch x" "good_fetch y"
    and w: "snd (world st1) = snd (world st) @ fetch_exchanges family weight subsets (FONT_FORMATS ! 0) x
                                 @ fetch_exchanges family weight subsets (FONT_FORMATS ! 1) y"
    and c: "css_part' = Some (rtext (fetch_css y))"
    and f: "files' = dict_set_all files [fetch_entry base weight x, fetch_entry base weight y]"
    and fff: "fff = [(FONT_FORMATS ! 0, fetch_name base weight x), (FONT_FORMATS ! 1, fetch_name base weight y)]"
    by blast
  have tmpl: "make_new_src fff
      = spec_declaration (fetch_name base weight x) (fetch_name base weight y)"
    unfolding fff by (rule make_new_src_spec)
  from assms l0 c have "(case re_sub esc (make_new_src fff) (rtext (fetch_css y)) of
        Inl e \<Rightarrow> (Inl e, st1)
      | Inr snippet \<Rightarrow> (Inr (Some (rtext (fetch_css y)), files', css @ [snippet]), st1))
      = (Inr V', st')"
    by (simp add: weight_body_def Let_def)
  then obtain sn where
    sn: "re_sub esc (spec_declaration (fetch_name base weight x) (fetch_name base weight y))
           (rtext (fetch_css y)) = Inr sn"
    and V': "V' = (Some (rtext (fetch_css y)), files', css @ [sn])" and st: "st' = st1"
    unfolding tmpl by (auto split: sum.splits)
  let ?xy = "(x, y)"
  have "good_fetch (fst ?xy) \<and> good_fetch (snd ?xy)
           \<and> snd (world st') = snd (world st) @ weight_exchanges family subsets weight ?xy
           \<and> snippet_of esc base weight ?xy sn
           \<and> V' = (Some (rtext (fetch_css (snd ?xy))),
                   dict_set_all files (weight_entries base weight ?xy), css @ [sn])"
    using g w sn V' st f by (simp add: weight_exchanges_def snippet_of_def weight_entries_def)
  then show ?thesis by blast
qed

lemma weight_loop_recorded:
  assumes "weight_loop (recording H) esc family subsets base ws (css_part, files, css) st
             = (Inr (css_part', files', css'), st')"
  shows "\<exists>xs sns. length xs = length ws
           \<and> list_all (\<lambda>xy. good_fetch (fst xy) \<and> good_fetch (snd xy)) xs
           \<and> list_all2 (\<lambda>wx sn. snippet_of esc base (fst wx) (snd wx) sn) (zip ws xs) sns
           \<and> snd (world st') = snd (world st) @ run_exchanges family subsets ws xs
           \<and> files' = dict_set_all files (inserted_fonts base ws xs)
           \<and> css' = css @ sns"
  using assms
proof (induction ws arbitrary: css_part files css st)
  case Nil
  then have "length ([] :: (fetch \<times> fetch) list) = length ([] :: string list)
           \<and> list_all (\<lambda>xy. good_fetch (fst xy) \<and> good_fetch (snd xy)) []
           \<and> list_all2 (\<lambda>wx sn. snippet_of esc base (fst wx) (snd wx) sn) (zip [] []) []
           \<and> snd (world st') = snd (world st) @ run_exchanges family subsets [] []
           \<and> files' = dict_set_all files (inserted_fonts base [] [])
           \<and> css' = css @ []"
    by (simp add: inserted_fonts_def run_exchanges_def dict_set_all_def)
  then show ?case by blast
next
  case (Cons w ws)
  from Cons.prems obtain V1 st1 where
    b: "weight_body (recording H) esc family subsets base w (css_part, files, css) st = (Inr V1, st1)"
    and l: "weight_loop (recording H) esc family subsets base ws V1 st1 = (Inr (css_part', files', css'), st')"
    by (auto split: prod.splits sum.splits)
  from weight_body_recorded [OF b] obtain xy sn where
    g: "good_fetch (fst xy) \<and> good_fetch (snd xy)"
    and w1: "snd (world st1) = snd (world st) @ weight_exchanges family subsets w xy"
    and sn: "snippet_of esc base w xy sn"
    and V1: "V1 = (Some (rtext (fetch_css (snd xy))), dict_set_all files (weight_entries base w xy),
                  css @ [sn])"
    by blast
  from Cons.IH [OF l [unfolded V1]] obtain xs sns where
    len: "length xs = length ws"
    and good: "list_all (\<lambda>xy. good_fetch (fst xy) \<and> good_fetch (snd xy)) xs"
    and sns: "list_all2 (\<lambda>wx sn. snippet_of esc base (fst wx) (snd wx) sn) (zip ws xs) sns"
    and w2: "snd (world st') = snd (world st1) @ run_exchanges family subsets ws xs"
    and f: "files' = dict_set_all (dict_set_all files (weight_entries base w xy)) (inserted_fonts base ws xs)"
    and c: "css' = (css @ [sn]) @ sns"
    by blast
  have "length (xy # xs) = length (w # ws)
           \<and> list_all (\<lambda>xy. good_fetch (fst xy) \<and> good_fetch (snd xy)) (xy # xs)
           \<and> list_all2 (\<lambda>wx sn. snippet_of esc base (fst wx) (snd wx) sn) (zip (w # ws) (xy # xs)) (sn # sns)
           \<and> snd (world st') = snd (world st) @ run_exchanges family subsets (w # ws) (xy # xs)
           \<and> files' = dict_set_all files (inserted_fonts base (w # ws) (xy # xs))
           \<and> css' = css @ (sn # sns)"
    using len good g sns sn w1 w2 f c
    by (simp add: run_exchanges_def inserted_fonts_def dict_set_all_append)
  then show ?case by blast
qed

lemma download_recorded:
  assumes "download_font_files (recording H) esc family weights subsets italic st = (Inr files, st')"
  shows "\<exists>xs sns. length xs = length (expand_weights weights italic)
           \<and> list_all (\<lambda>xy. good_fetch (fst xy) \<and> good_fetch (snd xy)) xs
           \<and> list_all2 (\<lambda>wx sn. snippet_of esc (get_base_filename family subsets) (fst wx) (snd wx) sn)
                (zip (expand_weights weights italic) xs) sns
           \<and> snd (world st') = snd (world st)
                @ run_exchanges family subsets (expand_weights weights italic) xs
           \<and> files = dict_set
                (dict_set_all []
                   (inserted_fonts (get_base_filename family subsets) (expand_weights weights italic) xs))
                (get_base_filename family subsets @ ''.css'') (encode_utf8 (join [NL] sns))"
proof -
  let ?base = "get_base_filename family subsets"
  let ?ws = "expand_weights weights italic"
  from assms obtain css_part files0 css where
    l: "weight_loop (recording H) esc family subsets ?base ?ws (None, [], []) st
          = (Inr (css_part, files0, css), st')"
    and f: "files = dict_set files0 (?base @ ''.css'') (encode_utf8 (join [NL] css))"
    by (auto simp: download_font_files_def Let_def split: prod.splits sum.splits)
  from weight_loop_recorded [OF l] f show ?thesis by auto
qed

lemma download_success:
  fixes st :: "'w io"
  assumes "download_font_files H esc family weights subsets italic st = (Inr files, st')"
  shows "\<exists>xs sns. length xs = length (expand_weights weights italic)
           \<and> list_all (\<lambda>xy. good_fetch (fst xy) \<and> good_fetch (snd xy)) xs
           \<and> list_all2 (\<lambda>wx sn. snippet_of esc (get_base_filename family subsets) (fst wx) (snd wx) sn)
                (zip (expand_weights weights italic) xs) sns
           \<and> exchanges H esc family weights subsets italic st
               = run_exchanges family subsets (expand_weights weights italic) xs
           \<and> files = dict_set
                (dict_set_all []
                   (inserted_fonts (get_base_filename family subsets) (expand_weights weights italic) xs))
                (get_base_filename family subsets @ ''.css'') (encode_utf8 (join [NL] sns))"
proof -
  let ?st = "\<lparr>world = (world st, [] :: exchange list), stderr = stderr st\<rparr>"
  let ?out = "download_font_files (recording H) esc family weights subsets italic ?st"
  have u: "unrecorded ?st = st" by (simp add: unrecorded_def)
  from download_traced [of H esc family weights subsets italic ?st]
  have "download_font_files H esc family weights subsets italic st = (fst ?out, unrecorded (snd ?out))"
    by (simp add: traced_def u)
  with assms have "fst ?out = Inr files" by simp
  then have r: "?out = (Inr files, snd ?out)" by (metis prod.collapse)
  have e: "exchanges H esc family weights subsets italic st = snd (world (snd ?out))"
    by (simp add: exchanges_def)
  from download_recorded [OF r] show ?thesis unfolding e by simp
qed






lemma keys_inserted_fonts:
  "k \<in> fst ` set (inserted_fonts base ws xs) \<Longrightarrow> \<exists>w e. k = font_name base w e"
proof (induction ws arbitrary: xs)
  case Nil
  then show ?case by (simp add: inserted_fonts_def)
next
  case (Cons w ws)
  show ?case
  proof (cases xs)
    case Nil
    with Cons.prems show ?thesis by (simp add: inserted_fonts_def)
  next
    case (Cons x xs')
    have "inserted_fonts base (w # ws) (x # xs') = weight_entries base w x @ inserted_fonts base ws xs'"
      by (simp add: inserted_fonts_def)
    with Cons.prems Cons have "k \<in> fst ` set (weight_entries base w x) \<or> k \<in> fst ` set (inserted_fonts base ws xs')"
      by auto
    then show ?thesis
    proof
      assume "k \<in> fst ` set (weight_entries base w x)"
      then show ?thesis by (auto simp: weight_entries_def fetch_entry_def fetch_name_def)
    next
      assume "k \<in> fst ` set (inserted_fonts base ws xs')"
      then show ?thesis by (rule Cons.IH)
    qed
  qed
qed

lemma css_name_fresh: "base @ ''.css'' \<notin> fst ` set (dict_set_all [] (inserted_fonts base ws xs))"
proof
  assume "base @ ''.css'' \<in> fst ` set (dict_set_all [] (inserted_fonts base ws xs))"
  then have "base @ ''.css'' \<in> fst ` set (inserted_fonts base ws xs)"
    by (simp add: keys_dict_set_all)
  then obtain w e where "base @ ''.css'' = font_name base w e"
    using keys_inserted_fonts by blast
  then show False by (simp add: font_name_def)
qed

text \<open>
  C7, as stated, fails: a run that asks for the weight 700 twice stores each font file
  twice under one name, and returns a mapping of three keys, not two for each weight and
  one for the CSS.
\<close>

theorem repeated_weight_counterexample:
  "download_font_files sample_world (\<lambda>t. Inl BadEscape) ''Lato'' [''700'', ''700''] [''latin''] False
     \<lparr>world = 0, stderr = []\<rparr>
   = (Inr twice_bundle, \<lparr>world = 8, stderr = sample_stderr @ sample_stderr\<rparr>)
   \<and> map fst twice_bundle = [''lato-latin-700.woff'', ''lato-latin-700.woff2'', ''lato-latin.css'']
   \<and> length twice_bundle \<noteq> 2 * length (expand_weights [''700'', ''700''] False) + 1"
  by code_simp

text \<open>
  C7, amended. On success the returned mapping is what these stores build, in this order:
  for each weight in turn the file fetched for the first format, then the file fetched for
  the second, each under its local filename, and last the CSS file under
  \<open><base_filename>.css\<close>, which ends the mapping. A store under a filename already present
  replaces the content where the key stands, so the keys are distinct; when the font
  filenames are pairwise distinct, the mapping lists exactly these entries in this order.
\<close>

theorem bundle_insertion_order:
  fixes st :: "'w io"
  assumes "download_font_files H esc family weights subsets italic st = (Inr files, st')"
  shows "\<exists>xs sns.
           length xs = length (expand_weights weights italic)
           \<and> length sns = length (expand_weights weights italic)
           \<and> list_all (\<lambda>xy. good_fetch (fst xy) \<and> good_fetch (snd xy)) xs
           \<and> exchanges H esc family weights subsets italic st
               = run_exchanges family subsets (expand_weights weights italic) xs
           \<and> files = dict_set_all []
                (inserted_fonts (get_base_filename family subsets) (expand_weights weights italic) xs
                 @ [(get_base_filename family subsets @ ''.css'', encode_utf8 (join [NL] sns))])
           \<and> last files = (get_base_filename family subsets @ ''.css'', encode_utf8 (join [NL] sns))
           \<and> distinct (map fst files)
           \<and> (distinct (map fst (inserted_fonts (get_base_filename family subsets)
                                  (expand_weights weights italic) xs))
                \<longrightarrow> files = inserted_fonts (get_base_filename family subsets)
                                (expand_weights weights italic) xs
                            @ [(get_base_filename family subsets @ ''.css'',
                                encode_utf8 (join [NL] sns))])"
proof -
  let ?base = "get_base_filename family subsets"
  let ?ws = "expand_weights weights italic"
  from download_success [OF assms] obtain xs sns where
    len: "length xs = length ?ws"
    and good: "list_all (\<lambda>xy. good_fetch (fst xy) \<and> good_fetch (snd xy)) xs"
    and sn: "list_all2 (\<lambda>wx sn. snippet_of esc ?base (fst wx) (snd wx) sn) (zip ?ws xs) sns"
    and ex: "exchanges H esc family weights subsets italic st = run_exchanges family subsets ?ws xs"
    and f: "files = dict_set (dict_set_all [] (inserted_fonts ?base ?ws xs)) (?base @ ''.css'')
                      (encode_utf8 (join [NL] sns))"
    by blast
  from sn len have lsn: "length sns = length ?ws" by (auto dest: list_all2_lengthD)
  let ?ins = "inserted_fonts ?base ?ws xs"
  let ?css = "(?base @ ''.css'', encode_utf8 (join [NL] sns))"
  have app: "files = dict_set_all [] ?ins @ [?css]"
    using f css_name_fresh [of ?base ?ws xs] by (simp add: dict_set_new)
  have all: "files = dict_set_all [] (?ins @ [?css])"
    using f by (simp add: dict_set_all_append) (simp add: dict_set_all_def)
  have la: "last files = ?css" using app by simp
  have "distinct (map fst (dict_set_all [] ?ins))" by (simp add: distinct_dict_set_all)
  then have di: "distinct (map fst files)" using f by (simp add: distinct_dict_set)
  have "distinct (map fst ?ins) \<longrightarrow> files = ?ins @ [?css]"
    using app dict_set_all_distinct [of "[]" ?ins] by simp
  with len lsn good ex all la di show ?thesis by blast
qed

theorem bundle_insertion_order_witness:
  "download_font_files sample_world (\<lambda>t. Inl BadEscape) ''Lato'' [''700''] [''latin''] False
     \<lparr>world = 0, stderr = []\<rparr>
   = (Inr sample_bundle, \<lparr>world = 4, stderr = sample_stderr\<rparr>)
   \<and> map fst sample_bundle = [''lato-latin-700.woff'', ''lato-latin-700.woff2'', ''lato-latin.css'']
   \<and> distinct (map fst sample_bundle)
   \<and> fst (last sample_bundle) = get_base_filename ''Lato'' [''latin''] @ ''.css''"
proof -
  have run: "download_font_files sample_world (\<lambda>t. Inl BadEscape) ''Lato'' [''700''] [''latin''] False
     \<lparr>world = 0, stderr = []\<rparr>
   = (Inr sample_bundle, \<lparr>world = 4, stderr = sample_stderr\<rparr>)"
    by code_simp
  from bundle_insertion_order [OF run] obtain sns where
    "last sample_bundle
       = (get_base_filename ''Lato'' [''latin''] @ ''.css'', encode_utf8 (join [NL] sns))"
    and "distinct (map fst sample_bundle)"
    by blast
  then show ?thesis using run by (simp add: sample_bundle_def)
qed




end
